theory Spec2Isabelle
  imports Main "HOL-Library.Word"
begin

section \<open>Data model\<close>

text \<open>
  Go's \<open>int64\<close> is a 64-bit word; \<open>+\<close> wraps around as Go's does, and the
  comparisons of the source are the signed ones (\<open><s\<close>, \<open>\<le>s\<close>).
  A Go \<open>[]byte\<close> and a Go \<open>string\<close> are both sequences of bytes: \<open>char list\<close>,
  HOL's \<open>char\<close> being a byte. A \<open>nil\<close> slice is \<open>None\<close> where the source
  distinguishes it from an empty one.
\<close>

type_synonym int64 = "64 word"
type_synonym bytes = "char list"

datatype error =
    EOF
  | ErrNegativeCount
  | ErrTooLong
  | ErrAdvanceTooFar
  | ErrNoProgress
  | SourceFailure nat
  | DecodeFailure nat
  | OffsetDiscardError int64 error

subsection \<open>extension/encoding: DecoderOptions and the functional options\<close>

record DecoderOptions =
  FlushBytes :: int64
  FlushItems :: int64
  Offset :: int64

type_synonym DecoderOption = "DecoderOptions \<Rightarrow> DecoderOptions"

definition defaultFlushBytes :: int64 where
  "defaultFlushBytes = 1024 * 1024"

definition defaultFlushItems :: int64 where
  "defaultFlushItems = 1000"

definition WithFlushBytes :: "int64 \<Rightarrow> DecoderOption" where
  "WithFlushBytes b = (\<lambda>o'. o'\<lparr>FlushBytes := b\<rparr>)"

definition WithFlushItems :: "int64 \<Rightarrow> DecoderOption" where
  "WithFlushItems i = (\<lambda>o'. o'\<lparr>FlushItems := i\<rparr>)"

definition WithOffset :: "int64 \<Rightarrow> DecoderOption" where
  "WithOffset off = (\<lambda>o'. o'\<lparr>Offset := off\<rparr>)"

text \<open>\<open>for _, o := range opts { o(&options) }\<close>: the options are applied in order.\<close>

fun applyOptions :: "DecoderOption list \<Rightarrow> DecoderOptions \<Rightarrow> DecoderOptions" where
  "applyOptions [] options = options"
| "applyOptions (opt # opts) options = applyOptions opts (opt options)"

definition NewDecoderOptions :: "DecoderOption list \<Rightarrow> DecoderOptions" where
  "NewDecoderOptions opts =
     applyOptions opts
       \<lparr>FlushBytes = defaultFlushBytes, FlushItems = defaultFlushItems, Offset = 0\<rparr>"

subsection \<open>pkg/xstreamencoding: BatchHelper\<close>

record BatchHelper =
  options :: DecoderOptions
  currentBytes :: int64
  currentItems :: int64

definition NewBatchHelper :: "DecoderOption list \<Rightarrow> BatchHelper" where
  "NewBatchHelper opts =
     \<lparr>options = NewDecoderOptions opts, currentBytes = 0, currentItems = 0\<rparr>"

definition IncrementBytes :: "BatchHelper \<Rightarrow> int64 \<Rightarrow> BatchHelper" where
  "IncrementBytes sh n = sh\<lparr>currentBytes := currentBytes sh + n\<rparr>"

definition IncrementItems :: "BatchHelper \<Rightarrow> int64 \<Rightarrow> BatchHelper" where
  "IncrementItems sh n = sh\<lparr>currentItems := currentItems sh + n\<rparr>"

definition ShouldFlush :: "BatchHelper \<Rightarrow> bool" where
  "ShouldFlush sh =
     (if 0 <s FlushBytes (options sh) \<and> FlushBytes (options sh) \<le>s currentBytes sh then True
      else if 0 <s FlushItems (options sh) \<and> FlushItems (options sh) \<le>s currentItems sh then True
      else False)"

definition Reset :: "BatchHelper \<Rightarrow> BatchHelper" where
  "Reset sh = sh\<lparr>currentBytes := 0, currentItems := 0\<rparr>"

definition Options :: "BatchHelper \<Rightarrow> DecoderOptions" where
  "Options sh = options sh"

text \<open>
  The calls a caller can make on a tracker, for statements about every interleaving
  of them.
\<close>

datatype trackerCall = CallIncrementBytes int64 | CallIncrementItems int64 | CallReset

fun applyCall :: "BatchHelper \<Rightarrow> trackerCall \<Rightarrow> BatchHelper" where
  "applyCall sh (CallIncrementBytes n) = IncrementBytes sh n"
| "applyCall sh (CallIncrementItems n) = IncrementItems sh n"
| "applyCall sh CallReset = Reset sh"

fun applyCalls :: "BatchHelper \<Rightarrow> trackerCall list \<Rightarrow> BatchHelper" where
  "applyCalls sh [] = sh"
| "applyCalls sh (c # cs) = applyCalls (applyCall sh c) cs"

subsection \<open>The byte-stream source\<close>

text \<open>
  A source is the bytes it still has to deliver and the way it ends: with \<open>io.EOF\<close>
  (\<open>failure = None\<close>) or with a read error once the bytes are delivered
  (\<open>failure = Some e\<close>). The end is sticky: every later read reports it again.
\<close>

record reader =
  pending :: bytes
  failure :: "error option"

definition terminal :: "reader \<Rightarrow> error" where
  "terminal r = (case failure r of None \<Rightarrow> EOF | Some e \<Rightarrow> e)"

definition newline :: char where
  "newline = CHR 0x0A"

text \<open>
  \<open>splitDelim d bs\<close> cuts \<open>bs\<close> after the first \<open>d\<close>: the bytes up to and including
  it, the bytes after it, and whether there was one.
\<close>

fun splitDelim :: "char \<Rightarrow> bytes \<Rightarrow> bytes \<times> bytes \<times> bool" where
  "splitDelim d [] = ([], [], False)"
| "splitDelim d (c # cs) =
     (if c = d then ([c], cs, True)
      else (case splitDelim d cs of (l, rest, found) \<Rightarrow> (c # l, rest, found)))"

text \<open>
  \<open>bufio.Reader.ReadBytes(delim)\<close>: the bytes up to and including the first
  delimiter; when the source ends before one, the bytes read so far and the error.
\<close>

definition ReadBytes :: "reader \<Rightarrow> char \<Rightarrow> bytes \<times> error option \<times> reader" where
  "ReadBytes r d =
     (case splitDelim d (pending r) of
        (l, rest, found) \<Rightarrow>
          if found then (l, None, r\<lparr>pending := rest\<rparr>)
          else (l, Some (terminal r), r\<lparr>pending := []\<rparr>))"

text \<open>
  \<open>bufio.Reader.Discard(n)\<close>: a negative count is refused; fewer than \<open>n\<close> bytes
  left consumes them and reports how the source ended.
\<close>

definition Discard :: "reader \<Rightarrow> int \<Rightarrow> error option \<times> reader" where
  "Discard r n =
     (if n < 0 then (Some ErrNegativeCount, r)
      else if nat n \<le> length (pending r) then (None, r\<lparr>pending := drop (nat n) (pending r)\<rparr>)
      else (Some (terminal r), r\<lparr>pending := []\<rparr>))"

subsection \<open>bytes.TrimSpace\<close>

definition asciiSpace :: "char \<Rightarrow> bool" where
  "asciiSpace c =
     (c = CHR 0x09 \<or> c = CHR 0x0A \<or> c = CHR 0x0B \<or> c = CHR 0x0C \<or> c = CHR 0x0D \<or> c = CHR 0x20)"

definition RuneSelf :: nat where
  "RuneSelf = 128"

text \<open>
  One direction of the ASCII fast path of \<open>bytes.TrimSpace\<close>: \<open>Inr rest\<close> when the scan
  stops at an ASCII byte that is no space (or at the end), \<open>Inl rest\<close> when it runs into
  a byte \<open>\<ge> utf8.RuneSelf\<close> and the library falls back to its Unicode-aware trimming
  of \<open>rest\<close>.
\<close>

fun skipSpace :: "bytes \<Rightarrow> bytes + bytes" where
  "skipSpace [] = Inr []"
| "skipSpace (c # cs) =
     (if RuneSelf \<le> of_char c then Inl (c # cs)
      else if asciiSpace c then skipSpace cs
      else Inr (c # cs))"

text \<open>
  \<open>bytes.TrimSpace\<close>. The Unicode-aware fallback \<open>TrimFunc(_, unicode.IsSpace)\<close> of the
  library is the parameter \<open>uni\<close>. A slice of spaces only is trimmed to \<open>nil\<close>.
\<close>

definition TrimSpace :: "(bytes \<Rightarrow> bytes option) \<Rightarrow> bytes \<Rightarrow> bytes option" where
  "TrimSpace uni s =
     (case skipSpace s of
        Inl r \<Rightarrow> uni r
      | Inr r \<Rightarrow>
          (case skipSpace (rev r) of
             Inl q \<Rightarrow> uni (rev q)
           | Inr q \<Rightarrow> if q = [] then None else Some (rev q)))"

subsection \<open>unicode/utf8 and the Unicode-aware trimming of package bytes\<close>

text \<open>
  The fallback of \<open>bytes.TrimSpace\<close> is \<open>TrimFunc(_, unicode.IsSpace)\<close>. Runes are
  natural numbers. \<open>lead\<close> is the table \<open>first\<close> of package \<open>utf8\<close> for the bytes
  that start a sequence of several bytes: the length of the sequence and the range
  accepted for its second byte; \<open>None\<close> for a byte that starts none.
\<close>

definition RuneError :: nat where
  "RuneError = 0xFFFD"

definition UTFMax :: nat where
  "UTFMax = 4"

definition MaxLatin1 :: nat where
  "MaxLatin1 = 0xFF"

definition locb :: nat where
  "locb = 0x80"

definition hicb :: nat where
  "hicb = 0xBF"

definition lead :: "nat \<Rightarrow> (nat \<times> nat \<times> nat) option" where
  "lead p0 =
     (if 0xC2 \<le> p0 \<and> p0 \<le> 0xDF then Some (2, locb, hicb)
      else if p0 = 0xE0 then Some (3, 0xA0, hicb)
      else if 0xE1 \<le> p0 \<and> p0 \<le> 0xEC then Some (3, locb, hicb)
      else if p0 = 0xED then Some (3, locb, 0x9F)
      else if 0xEE \<le> p0 \<and> p0 \<le> 0xEF then Some (3, locb, hicb)
      else if p0 = 0xF0 then Some (4, 0x90, hicb)
      else if 0xF1 \<le> p0 \<and> p0 \<le> 0xF3 then Some (4, locb, hicb)
      else if p0 = 0xF4 then Some (4, locb, 0x8F)
      else None)"

fun DecodeRune :: "bytes \<Rightarrow> nat \<times> nat" where
  "DecodeRune [] = (RuneError, 0)"
| "DecodeRune (c0 # cs) =
     (let p0 = (of_char c0 :: nat) in
      if p0 < RuneSelf then (p0, 1)
      else
        (case lead p0 of
           None \<Rightarrow> (RuneError, 1)
         | Some (sz, lo, hi) \<Rightarrow>
             if length (c0 # cs) < sz then (RuneError, 1)
             else
               let b1 = (of_char (cs ! 0) :: nat) in
               if b1 < lo \<or> hi < b1 then (RuneError, 1)
               else if sz \<le> 2 then ((p0 mod 32) * 64 + b1 mod 64, 2)
               else
                 let b2 = (of_char (cs ! 1) :: nat) in
                 if b2 < locb \<or> hicb < b2 then (RuneError, 1)
                 else if sz \<le> 3 then
                   ((p0 mod 16) * 4096 + (b1 mod 64) * 64 + b2 mod 64, 3)
                 else
                   let b3 = (of_char (cs ! 2) :: nat) in
                   if b3 < locb \<or> hicb < b3 then (RuneError, 1)
                   else ((p0 mod 8) * 262144 + (b1 mod 64) * 4096 + (b2 mod 64) * 64
                           + b3 mod 64, 4)))"

text \<open>
  \<open>utf8.DecodeLastRune\<close> steps back over at most \<open>UTFMax\<close> bytes to one that can
  start a rune, decodes from there, and accepts the rune when it ends where the slice
  ends.
\<close>

definition RuneStart :: "nat \<Rightarrow> bool" where
  "RuneStart b = (\<not> (0x80 \<le> b \<and> b < 0xC0))"

function backToStart :: "bytes \<Rightarrow> int \<Rightarrow> int \<Rightarrow> int" where
  "backToStart p start lim =
     (if lim \<le> start then
        (if RuneStart (of_char (p ! nat start)) then start
         else backToStart p (start - 1) lim)
      else start)"
  by pat_completeness auto
termination
  by (relation "measure (\<lambda>(p, start, lim). nat (start - lim + 1))") auto

declare backToStart.simps [simp del]

definition DecodeLastRune :: "bytes \<Rightarrow> nat \<times> nat" where
  "DecodeLastRune p =
     (if length p = 0 then (RuneError, 0)
      else
        let r = (of_char (p ! (length p - 1)) :: nat) in
        if r < RuneSelf then (r, 1)
        else
          let lim = int (length p - UTFMax);
              start0 = backToStart p (int (length p) - 2) lim;
              start = (if start0 < 0 then 0 else nat start0)
          in
          (case DecodeRune (drop start p) of
             (r', wid) \<Rightarrow> if start + wid \<noteq> length p then (RuneError, 1) else (r', wid)))"

text \<open>\<open>unicode.IsSpace\<close>: the Latin-1 spaces, and beyond them the table \<open>White_Space\<close>.\<close>

definition IsSpace :: "nat \<Rightarrow> bool" where
  "IsSpace r =
     (if r \<le> MaxLatin1 then
        r = 0x09 \<or> r = 0x0A \<or> r = 0x0B \<or> r = 0x0C \<or> r = 0x0D \<or> r = 0x20
        \<or> r = 0x85 \<or> r = 0xA0
      else
        r = 0x1680 \<or> (0x2000 \<le> r \<and> r \<le> 0x200A) \<or> (0x2028 \<le> r \<and> r \<le> 0x2029)
        \<or> r = 0x202F \<or> r = 0x205F \<or> r = 0x3000)"

text \<open>
  The rune at the start of a slice and its width, and the rune at its end, as
  \<open>indexFunc\<close> and \<open>lastIndexFunc\<close> read them: a byte below \<open>RuneSelf\<close> is its own
  rune.
\<close>

definition runeAt :: "bytes \<Rightarrow> nat \<times> nat" where
  "runeAt s = (if RuneSelf \<le> of_char (hd s) then DecodeRune s else (of_char (hd s), 1))"

definition runeBefore :: "bytes \<Rightarrow> nat \<times> nat" where
  "runeBefore s =
     (if RuneSelf \<le> of_char (last s) then DecodeLastRune s else (of_char (last s), 1))"

text \<open>A rune read from bytes that are there is at least one byte wide.\<close>

lemma DecodeRune_size:
  assumes "s \<noteq> []"
  shows "0 < snd (DecodeRune s)"
proof (cases s)
  case Nil
  with assms show ?thesis by simp
next
  case (Cons c0 cs)
  show ?thesis
  proof (cases "lead (of_char c0)")
    case None
    then show ?thesis using Cons by (simp add: Let_def)
  next
    case (Some t)
    then obtain sz lo hi where "lead (of_char c0) = Some (sz, lo, hi)"
      by (cases t) auto
    then show ?thesis using Cons by (simp add: Let_def)
  qed
qed

lemma runeAt_size: "s \<noteq> [] \<Longrightarrow> 0 < snd (runeAt s)"
  by (simp add: runeAt_def DecodeRune_size)

lemma DecodeLastRune_size: "s \<noteq> [] \<Longrightarrow> 0 < snd (DecodeLastRune s)"
proof -
  assume ne: "s \<noteq> []"
  have "0 < snd (case DecodeRune (drop k s) of
             (r', wid) \<Rightarrow> if k + wid \<noteq> length s then (RuneError, 1::nat) else (r', wid))"
    if "k < length s" for k
    using DecodeRune_size [of "drop k s"] that
    by (auto split: prod.splits)
  moreover have "(if backToStart s (int (length s) - 2) lim < 0 then 0
                  else nat (backToStart s (int (length s) - 2) lim)) < length s" for lim
  proof -
    have "backToStart s a lim \<le> a" for a
    proof (induction s a lim rule: backToStart.induct)
      case (1 p start lim)
      then show ?case
        by (subst backToStart.simps) (auto simp: not_le)
    qed
    from this [of "int (length s) - 2"] ne show ?thesis by (cases s) auto
  qed
  ultimately show ?thesis
    using ne by (simp add: DecodeLastRune_def Let_def)
qed

lemma runeBefore_size: "s \<noteq> [] \<Longrightarrow> 0 < snd (runeBefore s)"
  by (simp add: runeBefore_def DecodeLastRune_size)

text \<open>
  \<open>indexFunc\<close> and \<open>lastIndexFunc\<close> of package \<open>bytes\<close>: the index of the first, and
  of the last, rune on which \<open>f\<close> gives \<open>truth\<close>; \<open>None\<close> is \<open>-1\<close>.
\<close>

function indexFunc :: "bytes \<Rightarrow> (nat \<Rightarrow> bool) \<Rightarrow> bool \<Rightarrow> nat option" where
  "indexFunc s f truth =
     (if s = [] then None
      else if f (fst (runeAt s)) = truth then Some 0
      else (case indexFunc (drop (snd (runeAt s)) s) f truth of
              None \<Rightarrow> None
            | Some i \<Rightarrow> Some (snd (runeAt s) + i)))"
  by pat_completeness auto
termination
  by (relation "measure (\<lambda>(s, f, truth). length s)") (auto simp: runeAt_size)

function lastIndexFunc :: "bytes \<Rightarrow> (nat \<Rightarrow> bool) \<Rightarrow> bool \<Rightarrow> nat option" where
  "lastIndexFunc s f truth =
     (if s = [] then None
      else if f (fst (runeBefore s)) = truth then Some (length s - snd (runeBefore s))
      else lastIndexFunc (take (length s - snd (runeBefore s)) s) f truth)"
  by pat_completeness auto
termination
  by (relation "measure (\<lambda>(s, f, truth). length s)") (auto simp: runeBefore_size)

declare indexFunc.simps [simp del] lastIndexFunc.simps [simp del]

text \<open>
  \<open>TrimLeftFunc\<close>, \<open>TrimRightFunc\<close> and \<open>TrimFunc\<close>: a slice of what is \<open>nil\<close> is
  \<open>nil\<close>, and \<open>TrimLeftFunc\<close> returns \<open>nil\<close> when \<open>f\<close> holds of every rune.
\<close>

definition TrimLeftFunc :: "bytes option \<Rightarrow> (nat \<Rightarrow> bool) \<Rightarrow> bytes option" where
  "TrimLeftFunc s f =
     (let bs = (case s of None \<Rightarrow> [] | Some x \<Rightarrow> x) in
      case indexFunc bs f False of
        None \<Rightarrow> None
      | Some i \<Rightarrow> Some (drop i bs))"

definition TrimRightFunc :: "bytes option \<Rightarrow> (nat \<Rightarrow> bool) \<Rightarrow> bytes option" where
  "TrimRightFunc s f =
     (let bs = (case s of None \<Rightarrow> [] | Some x \<Rightarrow> x) in
      case lastIndexFunc bs f False of
        None \<Rightarrow> map_option (take 0) s
      | Some i \<Rightarrow>
          if RuneSelf \<le> of_char (bs ! i) then
            map_option (take (i + snd (DecodeRune (drop i bs)))) s
          else map_option (take (i + 1)) s)"

definition TrimFunc :: "bytes option \<Rightarrow> (nat \<Rightarrow> bool) \<Rightarrow> bytes option" where
  "TrimFunc s f = TrimRightFunc (TrimLeftFunc s f) f"

text \<open>The fallback of \<open>bytes.TrimSpace\<close> on a slice that is not \<open>nil\<close>.\<close>

definition TrimFuncIsSpace :: "bytes \<Rightarrow> bytes option" where
  "TrimFuncIsSpace s = TrimFunc (Some s) IsSpace"

text \<open>
  \<open>utf8.AppendRune\<close>, the UTF-8 encoding of a rune: what a line of text holds for a
  character.
\<close>

definition EncodeRune :: "nat \<Rightarrow> bytes" where
  "EncodeRune r =
     (if r \<le> 0x7F then [char_of r]
      else if r \<le> 0x7FF then [char_of (0xC0 + r div 64), char_of (0x80 + r mod 64)]
      else if 0x10FFFF < r \<or> (0xD800 \<le> r \<and> r \<le> 0xDFFF) then
        [char_of (0xEF :: nat), char_of (0xBF :: nat), char_of (0xBD :: nat)]
      else if r \<le> 0xFFFF then
        [char_of (0xE0 + r div 4096), char_of (0x80 + (r div 64) mod 64),
         char_of (0x80 + r mod 64)]
      else
        [char_of (0xF0 + r div 262144), char_of (0x80 + (r div 4096) mod 64),
         char_of (0x80 + (r div 64) mod 64), char_of (0x80 + r mod 64)])"

subsection \<open>pkg/xstreamencoding: ScannerHelper\<close>

record ScannerHelper =
  batchHelper :: BatchHelper
  bufReader :: reader
  offset :: int64

definition NewScannerHelper :: "reader \<Rightarrow> DecoderOption list \<Rightarrow> error + ScannerHelper" where
  "NewScannerHelper rd opts =
     (let bh = NewBatchHelper opts in
      if Offset (options bh) \<noteq> 0 then
        (case Discard rd (sint (Offset (options bh))) of
           (Some err, _) \<Rightarrow> Inl (OffsetDiscardError (Offset (options bh)) err)
         | (None, rd') \<Rightarrow>
             Inr \<lparr>batchHelper = bh, bufReader = rd', offset = Offset (options bh)\<rparr>)
      else Inr \<lparr>batchHelper = bh, bufReader = rd, offset = Offset (options bh)\<rparr>)"

text \<open>The result of a scan: the record (\<open>None\<close> is \<open>nil\<close>), the flush flag, the error.\<close>

type_synonym scanned = "bytes option \<times> bool \<times> error option"

definition scanInternal ::
  "(bytes \<Rightarrow> bytes option) \<Rightarrow> ScannerHelper \<Rightarrow> scanned \<times> ScannerHelper" where
  "scanInternal uni h =
     (case ReadBytes (bufReader h) newline of
        (b, err, rd') \<Rightarrow>
          let h1 = h\<lparr>bufReader := rd'\<rparr> in
          if err \<noteq> None \<and> err \<noteq> Some EOF then ((None, False, err), h1)
          else
            let isEOF = (err \<noteq> None) in
            if length b = 0 \<and> isEOF then ((None, True, Some EOF), h1)
            else
              let h2 = h1\<lparr>offset := offset h1 + of_nat (length b)\<rparr>;
                  h3 = h2\<lparr>batchHelper := IncrementBytes (batchHelper h2) (of_nat (length b))\<rparr>;
                  h4 = h3\<lparr>batchHelper := IncrementItems (batchHelper h3) 1\<rparr>;
                  flush = ShouldFlush (batchHelper h4);
                  h5 = (if flush then h4\<lparr>batchHelper := Reset (batchHelper h4)\<rparr> else h4);
                  b' = TrimSpace uni b
              in if isEOF then ((b', flush, Some EOF), h5) else ((b', flush, None), h5))"

definition ScanBytes ::
  "(bytes \<Rightarrow> bytes option) \<Rightarrow> ScannerHelper \<Rightarrow> scanned \<times> ScannerHelper" where
  "ScanBytes uni h =
     (case scanInternal uni h of
        ((b, flush, err), h') \<Rightarrow>
          (case b of
             Some bs \<Rightarrow> ((Some (take (length bs) bs), flush, err), h')
           | None \<Rightarrow> ((None, flush, err), h')))"

text \<open>Go's \<open>string(b)\<close>: the same bytes, a \<open>nil\<close> slice giving the empty string.\<close>

definition string_of :: "bytes option \<Rightarrow> bytes" where
  "string_of b = (case b of None \<Rightarrow> [] | Some bs \<Rightarrow> bs)"

definition ScanString ::
  "(bytes \<Rightarrow> bytes option) \<Rightarrow> ScannerHelper \<Rightarrow> (bytes \<times> bool \<times> error option) \<times> ScannerHelper" where
  "ScanString uni h =
     (case scanInternal uni h of
        ((internal, b, err), h') \<Rightarrow> ((string_of internal, b, err), h'))"

definition ScannerOffset :: "ScannerHelper \<Rightarrow> int64" where
  "ScannerOffset h = offset h"

subsection \<open>plog.Logs\<close>

text \<open>
  A batch is a list of resource entries, each a list of scope entries, each a list of
  log records. The body of a record is a string value.
\<close>

record LogRecord =
  observedTimestamp :: nat
  body :: bytes

type_synonym ScopeLogs = "LogRecord list"
type_synonym ResourceLogs = "ScopeLogs list"
type_synonym Logs = "ResourceLogs list"

definition LogRecordCount :: "Logs \<Rightarrow> nat" where
  "LogRecordCount ld = sum_list (map (\<lambda>rl. sum_list (map length rl)) ld)"

text \<open>The records of a batch in the order the three nested loops visit them.\<close>

definition allRecords :: "Logs \<Rightarrow> LogRecord list" where
  "allRecords ld = concat (concat ld)"

subsection \<open>textencodingextension: MarshalLogs\<close>

text \<open>
  The state of the three nested loops is the buffer \<open>b\<close> and the flag
  \<open>appendedLogRecord\<close>.
\<close>

fun marshalRecords :: "bytes \<Rightarrow> LogRecord list \<Rightarrow> bytes \<times> bool \<Rightarrow> bytes \<times> bool" where
  "marshalRecords sep [] st = st"
| "marshalRecords sep (lr # lrs) (b, appendedLogRecord) =
     marshalRecords sep lrs ((if appendedLogRecord then b @ sep else b) @ body lr, True)"

fun marshalScopes :: "bytes \<Rightarrow> ScopeLogs list \<Rightarrow> bytes \<times> bool \<Rightarrow> bytes \<times> bool" where
  "marshalScopes sep [] st = st"
| "marshalScopes sep (sl # sls) st = marshalScopes sep sls (marshalRecords sep sl st)"

fun marshalResources :: "bytes \<Rightarrow> ResourceLogs list \<Rightarrow> bytes \<times> bool \<Rightarrow> bytes \<times> bool" where
  "marshalResources sep [] st = st"
| "marshalResources sep (rl # rls) st = marshalResources sep rls (marshalScopes sep rl st)"

text \<open>
  The spec's words for the result: the record contents with the separator strictly
  between them.
\<close>

fun joinWith :: "bytes \<Rightarrow> bytes list \<Rightarrow> bytes" where
  "joinWith sep [] = []"
| "joinWith sep [x] = x"
| "joinWith sep (x # y # ys) = x @ sep @ joinWith sep (y # ys)"

subsection \<open>bufio.Scanner\<close>

text \<open>
  The scanner of Go's standard library, as the decoder uses it: the buffered bytes
  \<open>s.buf[s.start:s.end]\<close> (\<open>scanBuf\<close>), the index \<open>s.start\<close>, the length of the
  buffer \<open>len(s.buf)\<close> (\<open>scanCap\<close>), the sticky error \<open>s.err\<close>, the count of
  empty tokens at the end of the input, and the last token.
\<close>

record Scanner =
  scanSrc :: reader
  scanBuf :: bytes
  scanStart :: nat
  scanCap :: nat
  scanErr :: "error option"
  scanEmpties :: nat
  scanToken :: "bytes option"

definition maxTokenSize :: nat where
  "maxTokenSize = 64 * 1024"

definition startBufSize :: nat where
  "startBufSize = 4096"

definition maxConsecutiveEmptyReads :: nat where
  "maxConsecutiveEmptyReads = 100"

definition NewScanner :: "reader \<Rightarrow> Scanner" where
  "NewScanner r =
     \<lparr>scanSrc = r, scanBuf = [], scanStart = 0, scanCap = 0, scanErr = None,
      scanEmpties = 0, scanToken = None\<rparr>"

text \<open>
  \<open>io.Reader.Read\<close> into a slice of \<open>n\<close> bytes: as many bytes as fit, and the end of
  the source only once nothing is left (as \<open>bytes.Reader\<close> does).
\<close>

definition Read :: "reader \<Rightarrow> nat \<Rightarrow> bytes \<times> error option \<times> reader" where
  "Read r n =
     (if pending r = [] then ([], Some (terminal r), r)
      else (take n (pending r), None, r\<lparr>pending := drop n (pending r)\<rparr>))"

text \<open>\<open>io.CopyN(io.Discard, reader, n)\<close>: fewer than \<open>n\<close> bytes is an error.\<close>

definition CopyN :: "reader \<Rightarrow> nat \<Rightarrow> error option \<times> reader" where
  "CopyN r n =
     (if n \<le> length (pending r) then (None, r\<lparr>pending := drop n (pending r)\<rparr>)
      else (Some (terminal r), r\<lparr>pending := []\<rparr>))"

definition setErr :: "Scanner \<Rightarrow> error \<Rightarrow> Scanner" where
  "setErr s e = (if scanErr s = None \<or> scanErr s = Some EOF then s\<lparr>scanErr := Some e\<rparr> else s)"

definition Err :: "Scanner \<Rightarrow> error option" where
  "Err s = (if scanErr s = Some EOF then None else scanErr s)"

definition Bytes :: "Scanner \<Rightarrow> bytes" where
  "Bytes s = string_of (scanToken s)"

text \<open>
  A split function gets the buffered data and whether the input has ended, and
  returns how far to advance and the token (\<open>None\<close> is \<open>nil\<close>: no token yet). The two
  split functions of the decoder never return an error, and they update the
  variable \<open>offsetTracker\<close> they capture: it is passed in and returned.
\<close>

type_synonym splitFunc = "bytes \<Rightarrow> bool \<Rightarrow> int64 \<Rightarrow> nat \<times> bytes option \<times> int64"

datatype scanResult = ScanTrue | ScanFalse | ScanPanic

text \<open>
  The first half of a round of the loop of \<open>Scanner.Scan\<close>: with data buffered or
  the input ended, the split function is asked for a token. \<open>Inl\<close> when \<open>Scan\<close>
  returns (or panics on too many empty tokens at the end of the input), \<open>Inr\<close> when
  there is no token yet.
\<close>

definition trySplit ::
  "splitFunc \<Rightarrow> Scanner \<times> int64 \<Rightarrow> (scanResult \<times> Scanner \<times> int64) + (Scanner \<times> int64)" where
  "trySplit split st =
     (case st of (s, off) \<Rightarrow>
        if scanBuf s \<noteq> [] \<or> scanErr s \<noteq> None then
          (case split (scanBuf s) (scanErr s \<noteq> None) off of
             (advance, tok, off') \<Rightarrow>
               if length (scanBuf s) < advance then
                 Inl (ScanFalse, setErr s ErrAdvanceTooFar, off')
               else
                 let s1 = s\<lparr>scanStart := scanStart s + advance,
                            scanBuf := drop advance (scanBuf s), scanToken := tok\<rparr>
                 in (case tok of
                       Some t \<Rightarrow>
                         if scanErr s1 = None \<or> 0 < advance then
                           Inl (ScanTrue, s1\<lparr>scanEmpties := 0\<rparr>, off')
                         else if maxConsecutiveEmptyReads < scanEmpties s1 + 1 then
                           Inl (ScanPanic, s1\<lparr>scanEmpties := scanEmpties s1 + 1\<rparr>, off')
                         else Inl (ScanTrue, s1\<lparr>scanEmpties := scanEmpties s1 + 1\<rparr>, off')
                     | None \<Rightarrow> Inr (s1, off')))
        else Inr (s, off))"

text \<open>
  Before a read: the data is moved to the front of the buffer when there is much empty
  space or space is needed, and a full buffer is doubled, up to \<open>maxTokenSize\<close>
  (\<open>Inl\<close>: the token is too long).
\<close>

definition makeRoom :: "Scanner \<Rightarrow> Scanner + Scanner" where
  "makeRoom s2 =
     (let s3 = (if 0 < scanStart s2 \<and>
                  (scanStart s2 + length (scanBuf s2) = scanCap s2 \<or>
                   scanCap s2 div 2 < scanStart s2)
                then s2\<lparr>scanStart := 0\<rparr> else s2)
      in
      if scanStart s3 + length (scanBuf s3) = scanCap s3 then
        if maxTokenSize \<le> scanCap s3 then Inl (setErr s3 ErrTooLong)
        else Inr (s3\<lparr>scanCap := min (if scanCap s3 * 2 = 0 then startBufSize
                                       else scanCap s3 * 2) maxTokenSize,
                      scanStart := 0\<rparr>)
      else Inr s3)"

text \<open>
  The read into the free part of the buffer. A source that delivers nothing and
  reports no error either is given up with \<open>io.ErrNoProgress\<close>.
\<close>

definition readMore :: "Scanner \<Rightarrow> Scanner" where
  "readMore s4 =
     (case Read (scanSrc s4) (scanCap s4 - (scanStart s4 + length (scanBuf s4))) of
        (bs, e, rd') \<Rightarrow>
          let s5 = s4\<lparr>scanSrc := rd', scanBuf := scanBuf s4 @ bs\<rparr> in
          (case e of
             Some er \<Rightarrow> setErr s5 er
           | None \<Rightarrow>
               if 0 < length bs then s5\<lparr>scanEmpties := 0\<rparr>
               else setErr s5 ErrNoProgress))"

text \<open>One round of the loop of \<open>Scanner.Scan\<close>; \<open>Inr\<close> when it goes round again.\<close>

definition scanStep ::
  "splitFunc \<Rightarrow> Scanner \<times> int64 \<Rightarrow> (scanResult \<times> Scanner \<times> int64) + (Scanner \<times> int64)" where
  "scanStep split st =
     (case trySplit split st of
        Inl r \<Rightarrow> Inl r
      | Inr (s2, off2) \<Rightarrow>
          if scanErr s2 \<noteq> None then Inl (ScanFalse, s2\<lparr>scanStart := 0, scanBuf := []\<rparr>, off2)
          else (case makeRoom s2 of
                  Inl s3 \<Rightarrow> Inl (ScanFalse, s3, off2)
                | Inr s4 \<Rightarrow> Inr (readMore s4, off2)))"

function Scan :: "splitFunc \<Rightarrow> Scanner \<times> int64 \<Rightarrow> scanResult \<times> Scanner \<times> int64" where
  "Scan split st = (case scanStep split st of Inl r \<Rightarrow> r | Inr st' \<Rightarrow> Scan split st')"
  by pat_completeness auto

text \<open>
  Each further round has read at least one byte or has met the end of the source, so
  \<open>Scan\<close> returns.
\<close>

definition scanMeasure :: "Scanner \<Rightarrow> nat" where
  "scanMeasure s = 2 * length (pending (scanSrc s)) + (if scanErr s = None then 1 else 0)"

lemma trySplit_Inr:
  "trySplit split (s, off) = Inr (s', off') \<Longrightarrow> scanSrc s' = scanSrc s \<and> scanErr s' = scanErr s"
  unfolding trySplit_def
  by (auto simp: Let_def split: prod.splits if_splits option.splits)

lemma makeRoom_Inr:
  "makeRoom s = Inr s' \<Longrightarrow> scanSrc s' = scanSrc s \<and> scanErr s' = scanErr s"
  unfolding makeRoom_def
  by (auto simp: Let_def split: if_splits)

lemma readMore_decreases:
  assumes that: "scanErr s = None"
  shows "scanMeasure (readMore s) < scanMeasure s"
proof (cases "pending (scanSrc s)")
  case Nil
  then show ?thesis using that
    by (simp add: readMore_def scanMeasure_def Read_def setErr_def)
next
  case (Cons c cs)
  show ?thesis
  proof (cases "scanStart s + length (scanBuf s) < scanCap s")
    case True
    then show ?thesis using that Cons
      by (simp add: readMore_def scanMeasure_def Read_def setErr_def)
  next
    case False
    then show ?thesis using that Cons
      by (simp add: readMore_def scanMeasure_def Read_def setErr_def)
  qed
qed

lemma scanStep_decreases:
  "scanStep split (s, off) = Inr (s', off') \<Longrightarrow> scanMeasure s' < scanMeasure s"
proof -
  assume step: "scanStep split (s, off) = Inr (s', off')"
  then obtain s2 where t: "trySplit split (s, off) = Inr (s2, off')"
    by (auto simp: scanStep_def split: sum.splits if_splits)
  with step have e2: "scanErr s2 = None"
    by (auto simp: scanStep_def split: sum.splits if_splits)
  with step t obtain s4 where m: "makeRoom s2 = Inr s4" and r: "s' = readMore s4"
    by (auto simp: scanStep_def split: sum.splits if_splits)
  from t have "scanSrc s2 = scanSrc s" "scanErr s2 = scanErr s"
    by (auto dest: trySplit_Inr)
  moreover from m have "scanSrc s4 = scanSrc s2" "scanErr s4 = scanErr s2"
    by (auto dest: makeRoom_Inr)
  ultimately have "scanMeasure s4 = scanMeasure s" and "scanErr s4 = None"
    using e2 by (simp_all add: scanMeasure_def)
  then show ?thesis
    using readMore_decreases [of s4] r by simp
qed

termination Scan
  by (relation "measure (\<lambda>(split, s, off). scanMeasure s)") (auto dest: scanStep_decreases)

declare Scan.simps [simp del]

subsection \<open>textencodingextension: the codec and its stream decoder\<close>

text \<open>
  The codec. \<open>decoder\<close> stands for \<open>textutils.DecodeAsString(r.decoder, _)\<close>, the
  transformation of a token into the text of a record, which may fail.
  \<open>unmarshalingSeparator\<close> stands for \<open>FindIndex\<close> of the compiled pattern: the
  start and the end of the leftmost match in the data, \<open>None\<close> when there is none;
  the field itself is \<open>None\<close> for a \<open>nil\<close> pattern.
\<close>

record textLogCodec =
  decoder :: "bytes \<Rightarrow> error + bytes"
  marshalingSeparator :: bytes
  unmarshalingSeparator :: "(bytes \<Rightarrow> (nat \<times> nat) option) option"

text \<open>\<open>MarshalLogs\<close>: the error it returns is always \<open>nil\<close>.\<close>

definition MarshalLogs :: "textLogCodec \<Rightarrow> Logs \<Rightarrow> bytes" where
  "MarshalLogs r ld = fst (marshalResources (marshalingSeparator r) ld ([], False))"

text \<open>The split function of pattern mode.\<close>

definition splitPattern :: "(bytes \<Rightarrow> (nat \<times> nat) option) \<Rightarrow> splitFunc" where
  "splitPattern FindIndex data atEOF offsetTracker =
     (if atEOF \<and> length data = 0 then (0, None, offsetTracker)
      else
        (case FindIndex data of
           Some (lo, hi) \<Rightarrow> (hi, Some (take lo data), offsetTracker + of_nat hi)
         | None \<Rightarrow>
             if atEOF then (length data, Some data, offsetTracker + of_nat (length data))
             else (0, None, offsetTracker)))"

text \<open>The split function without a pattern: more data is requested until the end.\<close>

definition splitWhole :: splitFunc where
  "splitWhole data atEOF offsetTracker =
     (if atEOF \<and> length data = 0 then (0, None, offsetTracker)
      else if atEOF then (length data, Some data, offsetTracker + of_nat (length data))
      else (0, None, offsetTracker))"

definition splitOf :: "textLogCodec \<Rightarrow> splitFunc" where
  "splitOf r =
     (case unmarshalingSeparator r of
        Some FindIndex \<Rightarrow> splitPattern FindIndex
      | None \<Rightarrow> splitWhole)"

text \<open>
  What the closures \<open>decodeF\<close> and \<open>offsetF\<close> capture: the scanner, the tracker and
  the variable \<open>offsetTracker\<close>.
\<close>

record LogsDecoder =
  scanner :: Scanner
  tracker :: BatchHelper
  offsetTracker :: int64

definition NewLogsDecoder ::
  "textLogCodec \<Rightarrow> reader \<Rightarrow> DecoderOption list \<Rightarrow> error + LogsDecoder" where
  "NewLogsDecoder r rd opts =
     (let bh = NewBatchHelper opts;
          off = Offset (Options bh)
      in
      case (if 0 <s off then CopyN rd (nat (sint off)) else (None, rd)) of
        (Some err, _) \<Rightarrow> Inl err
      | (None, rd') \<Rightarrow> Inr \<lparr>scanner = NewScanner rd', tracker = bh, offsetTracker = off\<rparr>)"

text \<open>A call returns, or it panics.\<close>

datatype 'a go = Return 'a | Panic

text \<open>A batch with one more record: its own resource entry and scope entry.\<close>

definition appendRecord :: "Logs \<Rightarrow> nat \<Rightarrow> bytes \<Rightarrow> Logs" where
  "appendRecord p now b = p @ [[[\<lparr>observedTimestamp = now, body = b\<rparr>]]]"

text \<open>
  The loop of \<open>decodeF\<close>. It goes round as long as the scanner yields tokens and no
  threshold is met, which a pattern that matches the empty string can make last for
  ever: the loop is given fuel, and \<open>None\<close> is a loop that has not returned yet.
\<close>

fun decodeLoop ::
  "nat \<Rightarrow> textLogCodec \<Rightarrow> nat \<Rightarrow> Logs \<Rightarrow> LogsDecoder \<Rightarrow>
     ((Logs \<times> error option) go \<times> LogsDecoder) option" where
  "decodeLoop 0 r now p d = None"
| "decodeLoop (Suc fuel) r now p d =
     (case Scan (splitOf r) (scanner d, offsetTracker d) of
        (res, s', off') \<Rightarrow>
          let d1 = d\<lparr>scanner := s', offsetTracker := off'\<rparr> in
          (case res of
             ScanPanic \<Rightarrow> Some (Panic, d1)
           | ScanFalse \<Rightarrow>
               (case Err s' of
                  Some err \<Rightarrow> Some (Return (p, Some err), d1)
                | None \<Rightarrow>
                    if LogRecordCount p = 0 then Some (Return (p, Some EOF), d1)
                    else Some (Return (p, None), d1))
           | ScanTrue \<Rightarrow>
               let b = Bytes s' in
               (case decoder r b of
                  Inl err \<Rightarrow> Some (Return (appendRecord p now [], Some err), d1)
                | Inr decoded \<Rightarrow>
                    let p' = appendRecord p now decoded;
                        bh1 = IncrementItems (tracker d1) 1;
                        bh2 = IncrementBytes bh1 (of_nat (length b))
                    in
                    if ShouldFlush bh2 then
                      Some (Return (p', None), d1\<lparr>tracker := Reset bh2\<rparr>)
                    else decodeLoop fuel r now p' (d1\<lparr>tracker := bh2\<rparr>))))"

definition DecodeLogs ::
  "nat \<Rightarrow> textLogCodec \<Rightarrow> nat \<Rightarrow> LogsDecoder \<Rightarrow>
     ((Logs \<times> error option) go \<times> LogsDecoder) option" where
  "DecodeLogs fuel r now d = decodeLoop fuel r now [] d"

definition LogsDecoderOffset :: "LogsDecoder \<Rightarrow> int64" where
  "LogsDecoderOffset d = offsetTracker d"

text \<open>\<open>UnmarshalLogs\<close>: the buffer is read through \<open>bytes.NewReader\<close>.\<close>

definition UnmarshalLogs ::
  "nat \<Rightarrow> textLogCodec \<Rightarrow> nat \<Rightarrow> bytes \<Rightarrow> (Logs \<times> error option) go option" where
  "UnmarshalLogs fuel r now buf =
     (case NewLogsDecoder r \<lparr>pending = buf, failure = None\<rparr> [WithOffset 0, WithFlushBytes 0] of
        Inl err \<Rightarrow> Some (Return ([], Some err))
      | Inr d \<Rightarrow>
          (case DecodeLogs fuel r now d of
             None \<Rightarrow> None
           | Some (Panic, _) \<Rightarrow> Some Panic
           | Some (Return (logs, Some err), _) \<Rightarrow> Some (Return ([], Some err))
           | Some (Return (logs, None), _) \<Rightarrow> Some (Return (logs, None))))"

text \<open>A pattern for witnesses: a single byte, as the pattern \<open>\n\<close> is for a newline.\<close>

fun indexByte :: "char \<Rightarrow> bytes \<Rightarrow> nat option" where
  "indexByte c [] = None"
| "indexByte c (x # xs) =
     (if x = c then Some 0 else (case indexByte c xs of None \<Rightarrow> None | Some i \<Rightarrow> Some (i + 1)))"

definition findByte :: "char \<Rightarrow> bytes \<Rightarrow> (nat \<times> nat) option" where
  "findByte c data = (case indexByte c data of None \<Rightarrow> None | Some i \<Rightarrow> Some (i, i + 1))"


subsection \<open>Tokens and records of a decode call\<close>

text \<open>
  The tokens that the next calls of \<open>Scan\<close> yield, at most \<open>n\<close> of them, up to the
  first call that yields none.
\<close>

fun scanTokens :: "nat \<Rightarrow> splitFunc \<Rightarrow> Scanner \<times> int64 \<Rightarrow> bytes list" where
  "scanTokens 0 split st = []"
| "scanTokens (Suc n) split st =
     (case Scan split st of
        (res, s', off') \<Rightarrow>
          (case res of
             ScanTrue \<Rightarrow> Bytes s' # scanTokens n split (s', off')
           | ScanFalse \<Rightarrow> []
           | ScanPanic \<Rightarrow> []))"

text \<open>Whether the transformation of a token succeeds.\<close>

definition transformed :: "textLogCodec \<Rightarrow> bytes \<Rightarrow> bool" where
  "transformed r b = (case decoder r b of Inl err \<Rightarrow> False | Inr decoded \<Rightarrow> True)"

text \<open>
  The record that the loop appends for a token: its body is the transformed token, and
  is left empty when the transformation fails.
\<close>

definition recordOf :: "textLogCodec \<Rightarrow> nat \<Rightarrow> bytes \<Rightarrow> LogRecord" where
  "recordOf r now b =
     \<lparr>observedTimestamp = now,
      body = (case decoder r b of Inl err \<Rightarrow> [] | Inr decoded \<Rightarrow> decoded)\<rparr>"

text \<open>
  The spec's words for a threshold met: the byte threshold is enabled and reached by
  the bytes counted, or the item threshold is enabled and reached by the items counted.
\<close>

definition thresholdMet :: "DecoderOptions \<Rightarrow> int64 \<Rightarrow> int64 \<Rightarrow> bool" where
  "thresholdMet opts nbytes nitems =
     ((0 <s FlushBytes opts \<and> FlushBytes opts \<le>s nbytes)
      \<or> (0 <s FlushItems opts \<and> FlushItems opts \<le>s nitems))"

text \<open>
  The tokens of one batch, in the words of the spec for the decode loop, with every
  token taken whatever its length: of the tokens to come, a decode call takes one
  after the other,
  counts one item and the length of the token for each token transformed, and stops at
  the first token whose transformation fails or with which a threshold is met (the
  counters are then reset). The result is the tokens taken, the byte counter and the
  item counter after them, and whether the call stopped at the last of them.
\<close>

fun batchOf ::
  "textLogCodec \<Rightarrow> DecoderOptions \<Rightarrow> int64 \<Rightarrow> int64 \<Rightarrow> bytes list \<Rightarrow>
     bytes list \<times> (int64 \<times> int64) \<times> bool" where
  "batchOf r opts nbytes nitems [] = ([], (nbytes, nitems), False)"
| "batchOf r opts nbytes nitems (b # bs) =
     (if \<not> transformed r b then ([b], (nbytes, nitems), True)
      else if thresholdMet opts (nbytes + of_nat (length b)) (nitems + 1) then
        ([b], (0, 0), True)
      else
        (case batchOf r opts (nbytes + of_nat (length b)) (nitems + 1) bs of
           (ts, counters, stopped) \<Rightarrow> (b # ts, counters, stopped)))"

text \<open>
  The result of the first call of \<open>Scan\<close>, among the next \<open>n\<close>, that yields no token;
  \<open>None\<close> when all \<open>n\<close> yield one.
\<close>

fun scanEnd :: "nat \<Rightarrow> splitFunc \<Rightarrow> Scanner \<times> int64 \<Rightarrow> scanResult option" where
  "scanEnd 0 split st = None"
| "scanEnd (Suc n) split st =
     (case Scan split st of
        (res, s', off') \<Rightarrow>
          (case res of
             ScanTrue \<Rightarrow> scanEnd n split (s', off')
           | ScanFalse \<Rightarrow> Some ScanFalse
           | ScanPanic \<Rightarrow> Some ScanPanic))"

subsection \<open>Sessions of the line scanner\<close>

text \<open>\<open>n\<close> scans one after the other: their results and the scanner after them.\<close>

fun scans ::
  "(bytes \<Rightarrow> bytes option) \<Rightarrow> nat \<Rightarrow> ScannerHelper \<Rightarrow> scanned list \<times> ScannerHelper" where
  "scans uni 0 h = ([], h)"
| "scans uni (Suc n) h =
     (case scanInternal uni h of
        (res, h1) \<Rightarrow> (case scans uni n h1 of (ress, h2) \<Rightarrow> (res # ress, h2)))"

text \<open>A scan has failed when its error is neither \<open>nil\<close> nor \<open>io.EOF\<close>.\<close>

fun failed :: "scanned \<Rightarrow> bool" where
  "failed (b, flush, err) = (err \<noteq> None \<and> err \<noteq> Some EOF)"

text \<open>The raw bytes that \<open>n\<close> calls of \<open>ReadBytes('\n')\<close> return one after the other.\<close>

fun rawReads :: "nat \<Rightarrow> reader \<Rightarrow> bytes list" where
  "rawReads 0 rd = []"
| "rawReads (Suc n) rd =
     (case ReadBytes rd newline of (b, err, rd') \<Rightarrow> b # rawReads n rd')"

text \<open>
  A session: a scanner is made over a source and scans \<open>n\<close> times; \<open>None\<close> when the
  scanner cannot be made.
\<close>

definition session ::
  "(bytes \<Rightarrow> bytes option) \<Rightarrow> reader \<Rightarrow> DecoderOption list \<Rightarrow> nat \<Rightarrow>
     (scanned list \<times> ScannerHelper) option" where
  "session uni rd opts n =
     (case NewScannerHelper rd opts of
        Inl err \<Rightarrow> None
      | Inr h \<Rightarrow> Some (scans uni n h))"

text \<open>What a scan returns apart from the flush flag: the record and the error.\<close>

fun recordAndError :: "scanned \<Rightarrow> bytes option \<times> error option" where
  "recordAndError (b, flush, err) = (b, err)"

text \<open>
  For the resumption of a session. \<open>consumed input f h\<close>: the scanner \<open>h\<close> has read
  a prefix of \<open>input\<close>, its offset is the length of that prefix, and the rest is
  still to be read. \<open>sameStream\<close>: two scanners at the same place of the same source.
  \<open>sameTracker\<close>: with the same thresholds and the same counters.
\<close>

definition consumed :: "bytes \<Rightarrow> error option \<Rightarrow> ScannerHelper \<Rightarrow> bool" where
  "consumed input f h =
     (\<exists>c. c \<le> length input \<and> offset h = of_nat c
          \<and> bufReader h = \<lparr>pending = drop c input, failure = f\<rparr>)"

definition sameStream :: "ScannerHelper \<Rightarrow> ScannerHelper \<Rightarrow> bool" where
  "sameStream h1 h2 = (bufReader h1 = bufReader h2 \<and> offset h1 = offset h2)"

definition sameTracker :: "ScannerHelper \<Rightarrow> ScannerHelper \<Rightarrow> bool" where
  "sameTracker h1 h2 =
     (FlushBytes (options (batchHelper h1)) = FlushBytes (options (batchHelper h2))
      \<and> FlushItems (options (batchHelper h1)) = FlushItems (options (batchHelper h2))
      \<and> currentBytes (batchHelper h1) = currentBytes (batchHelper h2)
      \<and> currentItems (batchHelper h1) = currentItems (batchHelper h2))"

subsection \<open>Inputs for the witnesses\<close>

definition exampleABC :: bytes where
  "exampleABC = ''a'' @ [newline] @ ''b'' @ [newline] @ ''c'' @ [newline]"

definition exampleLines :: reader where
  "exampleLines =
     \<lparr>pending = ''line1'' @ [newline] @ ''  line2 '' @ [newline] @ ''line3'', failure = None\<rparr>"

text \<open>
  A codec that splits at newlines and leaves the text of a record as it is, and a
  payload of \<open>n\<close> lines.
\<close>

definition exampleCodec :: textLogCodec where
  "exampleCodec =
     \<lparr>decoder = Inr, marshalingSeparator = [newline],
      unmarshalingSeparator = Some (findByte newline)\<rparr>"

definition repeatedLines :: "nat \<Rightarrow> bytes" where
  "repeatedLines n = concat (replicate n (''a'' @ [newline]))"



section \<open>Properties of the batch tracker\<close>

lemma options_applyCall: "options (applyCall sh c) = options sh"
  by (cases c) (simp_all add: IncrementBytes_def IncrementItems_def Reset_def)

lemma options_applyCalls: "options (applyCalls sh cs) = options sh"
  by (induction cs arbitrary: sh) (simp_all add: options_applyCall)

lemma ShouldFlush_Reset: "\<not> ShouldFlush (Reset sh)"
  by (simp add: ShouldFlush_def Reset_def word_sless_alt word_sle_eq)

text \<open>
  Claim C3. Whatever the configuration and whatever calls of \<open>IncrementBytes\<close>,
  \<open>IncrementItems\<close> and \<open>Reset\<close> were made in whatever order, \<open>ShouldFlush\<close> is true
  exactly when the byte threshold is positive and reached by \<open>currentBytes\<close> or the
  item threshold is positive and reached by \<open>currentItems\<close>; right after \<open>Reset\<close> it
  is false; and with both thresholds 0 it is never true.
\<close>

theorem ShouldFlush_iff_thresholds:
  "(ShouldFlush (applyCalls sh cs) \<longleftrightarrow>
      (0 <s FlushBytes (options sh) \<and> FlushBytes (options sh) \<le>s currentBytes (applyCalls sh cs))
    \<or> (0 <s FlushItems (options sh) \<and> FlushItems (options sh) \<le>s currentItems (applyCalls sh cs)))
   \<and> \<not> ShouldFlush (Reset (applyCalls sh cs))
   \<and> (FlushBytes (options sh) = 0 \<and> FlushItems (options sh) = 0 \<longrightarrow>
        \<not> ShouldFlush (applyCalls sh cs))"
proof (intro conjI)
  show "ShouldFlush (applyCalls sh cs) \<longleftrightarrow>
      (0 <s FlushBytes (options sh) \<and> FlushBytes (options sh) \<le>s currentBytes (applyCalls sh cs))
    \<or> (0 <s FlushItems (options sh) \<and> FlushItems (options sh) \<le>s currentItems (applyCalls sh cs))"
    by (simp add: ShouldFlush_def options_applyCalls)
  show "\<not> ShouldFlush (Reset (applyCalls sh cs))"
    by (rule ShouldFlush_Reset)
  show "FlushBytes (options sh) = 0 \<and> FlushItems (options sh) = 0 \<longrightarrow>
        \<not> ShouldFlush (applyCalls sh cs)"
    by (simp add: ShouldFlush_def options_applyCalls)
qed

text \<open>
  The theorem at the thresholds 5 and 5 after five bytes (a flush is due), and at the
  thresholds 0 and 0 after five bytes and seven items (none is).
\<close>

theorem ShouldFlush_iff_thresholds_witness:
  "ShouldFlush (applyCalls (NewBatchHelper [WithFlushBytes 5, WithFlushItems 5])
                  [CallIncrementBytes 5])
   \<and> \<not> ShouldFlush (Reset (applyCalls (NewBatchHelper [WithFlushBytes 5, WithFlushItems 5])
                  [CallIncrementBytes 5]))
   \<and> FlushBytes (options (NewBatchHelper [WithFlushBytes 0, WithFlushItems 0])) = 0
   \<and> FlushItems (options (NewBatchHelper [WithFlushBytes 0, WithFlushItems 0])) = 0
   \<and> \<not> ShouldFlush (applyCalls (NewBatchHelper [WithFlushBytes 0, WithFlushItems 0])
                  [CallIncrementBytes 5, CallIncrementItems 7])"
  using ShouldFlush_iff_thresholds
          [of "NewBatchHelper [WithFlushBytes 0, WithFlushItems 0]"
              "[CallIncrementBytes 5, CallIncrementItems 7]"]
        ShouldFlush_iff_thresholds
          [of "NewBatchHelper [WithFlushBytes 5, WithFlushItems 5]" "[CallIncrementBytes 5]"]
  by (simp add: NewBatchHelper_def NewDecoderOptions_def WithFlushBytes_def WithFlushItems_def
        IncrementBytes_def IncrementItems_def word_sless_alt word_sle_eq)

section \<open>Properties of the line scanner\<close>

lemma ReadBytes_shape:
  "ReadBytes rd d = (b, err, rd') \<Longrightarrow>
     pending rd' = drop (length b) (pending rd) \<and> length b \<le> length (pending rd)
     \<and> failure rd' = failure rd \<and> b = take (length b) (pending rd)"
proof -
  have sd: "\<And>l rest found. splitDelim d xs = (l, rest, found) \<Longrightarrow>
      xs = l @ rest \<and> (\<not> found \<longrightarrow> rest = [])" for xs
    by (induction xs) (auto split: if_splits prod.splits)
  assume "ReadBytes rd d = (b, err, rd')"
  then show ?thesis
    using sd [of "pending rd"]
    by (auto simp: ReadBytes_def split: prod.splits if_splits)
qed

lemma scanInternal_offset:
  assumes "scanInternal uni h = (res, h')" and "\<not> failed res"
  shows "offset h' = offset h + of_nat (length (fst (ReadBytes (bufReader h) newline)))
       \<and> bufReader h' = snd (snd (ReadBytes (bufReader h) newline))"
  using assms
  by (cases "ReadBytes (bufReader h) newline")
     (auto simp: scanInternal_def Let_def split: if_splits)

lemma scans_offset:
  "scans uni n h = (ress, h') \<Longrightarrow> \<forall>res\<in>set ress. \<not> failed res \<Longrightarrow>
     offset h' = offset h + of_nat (sum_list (map length (rawReads n (bufReader h))))
     \<and> length (pending (bufReader h')) + sum_list (map length (rawReads n (bufReader h)))
         = length (pending (bufReader h))"
proof (induction n arbitrary: h ress)
  case 0
  then show ?case by simp
next
  case (Suc n)
  obtain res h1 where s1: "scanInternal uni h = (res, h1)"
    by (cases "scanInternal uni h")
  obtain ress1 where s2: "scans uni n h1 = (ress1, h')" and r: "ress = res # ress1"
    using Suc.prems(1) s1 by (auto split: prod.splits)
  obtain b err rd' where rb: "ReadBytes (bufReader h) newline = (b, err, rd')"
    by (cases "ReadBytes (bufReader h) newline")
  have nf: "\<not> failed res" and nfs: "\<forall>res\<in>set ress1. \<not> failed res"
    using Suc.prems(2) r by simp_all
  from scanInternal_offset [OF s1 nf] rb
  have o1: "offset h1 = offset h + of_nat (length b)" and b1: "bufReader h1 = rd'"
    by simp_all
  from ReadBytes_shape [OF rb]
  have len: "length (pending rd') + length b = length (pending (bufReader h))"
    by simp
  from Suc.IH [OF s2 nfs] o1 b1 len rb show ?case
    by (simp add: add.assoc)
qed

text \<open>
  Claim C1. For every source and every initial offset whose discard succeeds (the
  scanner \<open>h\<close> is made), after \<open>n\<close> scans none of which failed, \<open>Offset()\<close> is the
  initial offset plus the sum of the lengths of the raw reads, newline included, and
  these are the bytes consumed from the source; this holds whatever the trimming does
  to the records returned (for every \<open>uni\<close>).
\<close>

theorem offset_after_scans:
  assumes "NewScannerHelper rd opts = Inr h"
    and "scans uni n h = (ress, h')"
    and "\<forall>res\<in>set ress. \<not> failed res"
  shows "ScannerOffset h' =
           Offset (NewDecoderOptions opts)
           + of_nat (sum_list (map length (rawReads n (bufReader h))))
       \<and> length (pending (bufReader h')) + sum_list (map length (rawReads n (bufReader h)))
           = length (pending (bufReader h))"
proof -
  have "offset h = Offset (NewDecoderOptions opts)"
    using assms(1)
    by (auto simp: NewScannerHelper_def NewBatchHelper_def Let_def
             split: if_splits prod.splits option.splits)
  with scans_offset [OF assms(2,3)] show ?thesis
    by (simp add: ScannerOffset_def)
qed

text \<open>The definitions that evaluate a scan on a concrete input.\<close>

lemmas evalScanner =
  NewScannerHelper_def NewBatchHelper_def NewDecoderOptions_def defaultFlushBytes_def
  defaultFlushItems_def WithOffset_def WithFlushBytes_def WithFlushItems_def Discard_def
  scanInternal_def ReadBytes_def terminal_def newline_def TrimSpace_def asciiSpace_def
  RuneSelf_def ShouldFlush_def IncrementBytes_def IncrementItems_def Reset_def Let_def
  word_sless_alt word_sle_eq ScannerOffset_def

text \<open>
  The theorem on three lines with the initial offset 6: the second line is read as
  nine raw bytes and returned trimmed to five, the third ends the input.
\<close>

theorem offset_after_scans_witness:
  "NewScannerHelper exampleLines [WithOffset 6] =
     Inr \<lparr>batchHelper = NewBatchHelper [WithOffset 6],
          bufReader = \<lparr>pending = ''  line2 '' @ [newline] @ ''line3'', failure = None\<rparr>,
          offset = 6\<rparr>
   \<and> fst (scans Some 2
        \<lparr>batchHelper = NewBatchHelper [WithOffset 6],
         bufReader = \<lparr>pending = ''  line2 '' @ [newline] @ ''line3'', failure = None\<rparr>,
         offset = 6\<rparr>) = [(Some ''line2'', False, None), (Some ''line3'', False, Some EOF)]
   \<and> ScannerOffset (snd (scans Some 2
        \<lparr>batchHelper = NewBatchHelper [WithOffset 6],
         bufReader = \<lparr>pending = ''  line2 '' @ [newline] @ ''line3'', failure = None\<rparr>,
         offset = 6\<rparr>)) = 6 + of_nat (9 + 5)"
proof -
  let ?h = "\<lparr>batchHelper = NewBatchHelper [WithOffset 6],
         bufReader = \<lparr>pending = ''  line2 '' @ [newline] @ ''line3'', failure = None\<rparr>,
         offset = 6\<rparr>"
  have a: "NewScannerHelper exampleLines [WithOffset 6] = Inr ?h"
    by (simp add: exampleLines_def evalScanner)
  have b: "fst (scans Some 2 ?h) = [(Some ''line2'', False, None), (Some ''line3'', False, Some EOF)]"
    by (simp add: evalScanner numeral_2_eq_2)
  have c: "scans Some 2 ?h = (fst (scans Some 2 ?h), snd (scans Some 2 ?h))"
    by simp
  have d: "\<forall>res\<in>set (fst (scans Some 2 ?h)). \<not> failed res"
    unfolding b by simp
  from offset_after_scans [OF a c d] a b show ?thesis
    by (simp add: evalScanner numeral_2_eq_2)
qed

lemma splitDelim_absent: "d \<notin> set xs \<Longrightarrow> splitDelim d xs = (xs, [], False)"
  by (induction xs) auto

lemma splitDelim_first:
  "d \<notin> set ws \<Longrightarrow> splitDelim d (ws @ d # rest) = (ws @ [d], rest, True)"
  by (induction ws) auto

text \<open>
  Claim C6. For a scanner whose source ends with \<open>io.EOF\<close>: with nothing left to
  read, a scan returns no record, the flush flag true and \<open>io.EOF\<close>, and changes
  neither the offset nor the tracker; with bytes left and no newline among them, the
  scan returns these bytes, trimmed, as the record, together with \<open>io.EOF\<close>, and the
  offset advances by their number.
\<close>

theorem scan_at_end_of_stream:
  assumes "terminal (bufReader h) = EOF"
  shows "(pending (bufReader h) = [] \<longrightarrow>
            fst (scanInternal uni h) = (None, True, Some EOF)
            \<and> offset (snd (scanInternal uni h)) = offset h
            \<and> batchHelper (snd (scanInternal uni h)) = batchHelper h)
       \<and> (pending (bufReader h) \<noteq> [] \<and> newline \<notin> set (pending (bufReader h)) \<longrightarrow>
            fst (scanInternal uni h) =
              (TrimSpace uni (pending (bufReader h)),
               ShouldFlush (IncrementItems (IncrementBytes (batchHelper h)
                  (of_nat (length (pending (bufReader h))))) 1),
               Some EOF)
            \<and> offset (snd (scanInternal uni h))
                = offset h + of_nat (length (pending (bufReader h))))"
  using assms
  by (simp add: scanInternal_def ReadBytes_def splitDelim_absent Let_def)

text \<open>
  The theorem after the last line of three, and before a last line that has no newline.
\<close>

theorem scan_at_end_of_stream_witness:
  "terminal \<lparr>pending = [], failure = None\<rparr> = EOF
   \<and> fst (scanInternal Some
        \<lparr>batchHelper = NewBatchHelper [], bufReader = \<lparr>pending = [], failure = None\<rparr>,
         offset = 18\<rparr>) = (None, True, Some EOF)
   \<and> terminal \<lparr>pending = ''line3'', failure = None\<rparr> = EOF
   \<and> newline \<notin> set ''line3''
   \<and> fst (scanInternal Some
        \<lparr>batchHelper = NewBatchHelper [], bufReader = \<lparr>pending = ''line3'', failure = None\<rparr>,
         offset = 12\<rparr>) = (Some ''line3'', False, Some EOF)
   \<and> offset (snd (scanInternal Some
        \<lparr>batchHelper = NewBatchHelper [], bufReader = \<lparr>pending = ''line3'', failure = None\<rparr>,
         offset = 12\<rparr>)) = 17"
  using scan_at_end_of_stream
          [of "\<lparr>batchHelper = NewBatchHelper [],
                bufReader = \<lparr>pending = [], failure = None\<rparr>, offset = 18\<rparr>" Some]
        scan_at_end_of_stream
          [of "\<lparr>batchHelper = NewBatchHelper [],
                bufReader = \<lparr>pending = ''line3'', failure = None\<rparr>, offset = 12\<rparr>" Some]
  by (simp add: evalScanner)

subsection \<open>Lines of white space\<close>

lemma IsSpace_cases:
  assumes "IsSpace r"
  shows "r = 0x09 \<or> r = 0x0A \<or> r = 0x0B \<or> r = 0x0C \<or> r = 0x0D \<or> r = 0x20
       \<or> r = 0x85 \<or> r = 0xA0 \<or> r = 0x1680
       \<or> r = 0x2000 \<or> r = 0x2001 \<or> r = 0x2002 \<or> r = 0x2003 \<or> r = 0x2004 \<or> r = 0x2005
       \<or> r = 0x2006 \<or> r = 0x2007 \<or> r = 0x2008 \<or> r = 0x2009 \<or> r = 0x200A
       \<or> r = 0x2028 \<or> r = 0x2029 \<or> r = 0x202F \<or> r = 0x205F \<or> r = 0x3000"
  using assms unfolding IsSpace_def MaxLatin1_def
  by (auto split: if_splits) arith+

lemma char_eq_nat: "(c = d) = ((of_char c :: nat) = of_char d)"
  by simp

lemmas evalRune =
  EncodeRune_def runeAt_def RuneSelf_def RuneError_def lead_def locb_def hicb_def Let_def

lemma runeAt_EncodeRune:
  assumes "IsSpace r"
  shows "runeAt (EncodeRune r @ rest) = (r, length (EncodeRune r)) \<and> EncodeRune r \<noteq> []"
  using IsSpace_cases [OF assms]
  by (elim disjE) (simp_all add: evalRune)

lemma skipSpace_EncodeRune:
  assumes "IsSpace r"
  shows "skipSpace (EncodeRune r @ rest) = skipSpace rest
       \<or> skipSpace (EncodeRune r @ rest) = Inl (EncodeRune r @ rest)"
  using IsSpace_cases [OF assms]
  by (elim disjE) (simp_all add: EncodeRune_def RuneSelf_def asciiSpace_def char_eq_nat)

lemma newline_not_in_EncodeRune:
  assumes "IsSpace r" and "r \<noteq> 0x0A"
  shows "newline \<notin> set (EncodeRune r)"
  using IsSpace_cases [OF assms(1)] assms(2)
  by (elim disjE) (simp_all add: EncodeRune_def newline_def char_eq_nat)

lemma indexFunc_spaces:
  "\<forall>r\<in>set rs. IsSpace r \<Longrightarrow> indexFunc (concat (map EncodeRune rs)) IsSpace False = None"
proof (induction rs)
  case Nil
  then show ?case by (simp add: indexFunc.simps)
next
  case (Cons r rs)
  then have sp: "IsSpace r" by simp
  let ?s = "EncodeRune r @ concat (map EncodeRune rs)"
  from runeAt_EncodeRune [OF sp, of "concat (map EncodeRune rs)"]
  have ra: "runeAt ?s = (r, length (EncodeRune r))" and ne: "?s \<noteq> []"
    by simp_all
  show ?case
    using Cons ra ne sp
    by (simp add: indexFunc.simps [of ?s])
qed

lemma TrimFuncIsSpace_spaces:
  "\<forall>r\<in>set rs. IsSpace r \<Longrightarrow> TrimFuncIsSpace (concat (map EncodeRune rs)) = None"
  by (simp add: TrimFuncIsSpace_def TrimFunc_def TrimLeftFunc_def TrimRightFunc_def
        indexFunc_spaces lastIndexFunc.simps [of "[]"])

lemma skipSpace_runes:
  "\<forall>r\<in>set rs. IsSpace r \<Longrightarrow>
     skipSpace (concat (map EncodeRune rs)) = Inr []
     \<or> (\<exists>rs'. (\<forall>r\<in>set rs'. IsSpace r)
            \<and> skipSpace (concat (map EncodeRune rs)) = Inl (concat (map EncodeRune rs')))"
proof (induction rs)
  case Nil
  then show ?case by simp
next
  case (Cons r rs)
  then have sp: "IsSpace r" and sps: "\<forall>r\<in>set rs. IsSpace r" by simp_all
  from skipSpace_EncodeRune [OF sp, of "concat (map EncodeRune rs)"]
  show ?case
  proof
    assume "skipSpace (EncodeRune r @ concat (map EncodeRune rs))
              = skipSpace (concat (map EncodeRune rs))"
    with Cons.IH [OF sps] show ?thesis by auto
  next
    assume "skipSpace (EncodeRune r @ concat (map EncodeRune rs))
              = Inl (EncodeRune r @ concat (map EncodeRune rs))"
    then have "skipSpace (concat (map EncodeRune (r # rs)))
              = Inl (concat (map EncodeRune (r # rs)))"
      by simp
    with Cons.prems show ?thesis by blast
  qed
qed

lemma TrimSpace_runes:
  assumes "\<forall>r\<in>set rs. IsSpace r"
  shows "TrimSpace TrimFuncIsSpace (concat (map EncodeRune rs)) = None"
  using skipSpace_runes [OF assms]
  by (auto simp: TrimSpace_def TrimFuncIsSpace_spaces)

lemma scanInternal_blank:
  assumes "ReadBytes (bufReader h) newline = (b, err, rd')"
    and "err = None \<or> err = Some EOF" and "b \<noteq> []" and "TrimSpace uni b = None"
  shows "scanInternal uni h =
     ((None,
       thresholdMet (options (batchHelper h))
         (currentBytes (batchHelper h) + of_nat (length b)) (currentItems (batchHelper h) + 1),
       err),
      \<lparr>batchHelper = (batchHelper h)
         \<lparr>currentBytes :=
            (if thresholdMet (options (batchHelper h))
                  (currentBytes (batchHelper h) + of_nat (length b))
                  (currentItems (batchHelper h) + 1)
             then 0 else currentBytes (batchHelper h) + of_nat (length b)),
          currentItems :=
            (if thresholdMet (options (batchHelper h))
                  (currentBytes (batchHelper h) + of_nat (length b))
                  (currentItems (batchHelper h) + 1)
             then 0 else currentItems (batchHelper h) + 1)\<rparr>,
       bufReader = rd', offset = offset h + of_nat (length b)\<rparr>)"
  using assms
  by (auto simp: scanInternal_def Let_def ShouldFlush_def thresholdMet_def IncrementBytes_def
        IncrementItems_def Reset_def)

text \<open>
  Claim C8, amended. A line of white space only is not skipped, whatever the white
  space: ASCII, or any other character that \<open>unicode.IsSpace\<close> accepts, in its UTF-8
  encoding. When the line ends with its newline, the scan returns the empty record
  (\<open>nil\<close>, the empty string from \<open>ScanString\<close>) with no error and leaves the rest of
  the source unread; when it is the last line of the source and has no newline, the
  scan returns the empty record together with \<open>io.EOF\<close>. In both cases the offset
  advances by the raw length of the line, and the line counts as one item and its raw
  bytes in the tracker: the flush flag is whether the counts then meet a threshold, and
  the counters are back at zero when they do.
\<close>

theorem blank_line_is_empty_record:
  assumes "\<forall>r\<in>set rs. IsSpace r \<and> r \<noteq> 0x0A"
  shows "(pending (bufReader h) = concat (map EncodeRune rs) @ newline # rest \<longrightarrow>
           scanInternal TrimFuncIsSpace h =
             ((None,
               thresholdMet (options (batchHelper h))
                 (currentBytes (batchHelper h) + of_nat (length (concat (map EncodeRune rs)) + 1))
                 (currentItems (batchHelper h) + 1),
               None),
              \<lparr>batchHelper = (batchHelper h)
                 \<lparr>currentBytes :=
                    (if thresholdMet (options (batchHelper h))
                          (currentBytes (batchHelper h)
                             + of_nat (length (concat (map EncodeRune rs)) + 1))
                          (currentItems (batchHelper h) + 1)
                     then 0
                     else currentBytes (batchHelper h)
                            + of_nat (length (concat (map EncodeRune rs)) + 1)),
                  currentItems :=
                    (if thresholdMet (options (batchHelper h))
                          (currentBytes (batchHelper h)
                             + of_nat (length (concat (map EncodeRune rs)) + 1))
                          (currentItems (batchHelper h) + 1)
                     then 0 else currentItems (batchHelper h) + 1)\<rparr>,
               bufReader = (bufReader h)\<lparr>pending := rest\<rparr>,
               offset = offset h + of_nat (length (concat (map EncodeRune rs)) + 1)\<rparr>)
           \<and> fst (fst (ScanString TrimFuncIsSpace h)) = [])
       \<and> (rs \<noteq> [] \<and> pending (bufReader h) = concat (map EncodeRune rs)
            \<and> terminal (bufReader h) = EOF \<longrightarrow>
           scanInternal TrimFuncIsSpace h =
             ((None,
               thresholdMet (options (batchHelper h))
                 (currentBytes (batchHelper h) + of_nat (length (concat (map EncodeRune rs))))
                 (currentItems (batchHelper h) + 1),
               Some EOF),
              \<lparr>batchHelper = (batchHelper h)
                 \<lparr>currentBytes :=
                    (if thresholdMet (options (batchHelper h))
                          (currentBytes (batchHelper h)
                             + of_nat (length (concat (map EncodeRune rs))))
                          (currentItems (batchHelper h) + 1)
                     then 0
                     else currentBytes (batchHelper h)
                            + of_nat (length (concat (map EncodeRune rs)))),
                  currentItems :=
                    (if thresholdMet (options (batchHelper h))
                          (currentBytes (batchHelper h)
                             + of_nat (length (concat (map EncodeRune rs))))
                          (currentItems (batchHelper h) + 1)
                     then 0 else currentItems (batchHelper h) + 1)\<rparr>,
               bufReader = (bufReader h)\<lparr>pending := []\<rparr>,
               offset = offset h + of_nat (length (concat (map EncodeRune rs)))\<rparr>)
           \<and> fst (fst (ScanString TrimFuncIsSpace h)) = [])"
proof (intro conjI impI)
  let ?ws = "concat (map EncodeRune rs)"
  have nl: "newline \<notin> set ?ws"
    using assms by (auto dest: newline_not_in_EncodeRune)
  have sp: "\<forall>r\<in>set rs. IsSpace r" using assms by simp
  have sp': "\<forall>r\<in>set (rs @ [0x0A]). IsSpace r"
    using assms by (auto simp: IsSpace_def MaxLatin1_def)
  have enc: "EncodeRune 0x0A = [newline]"
    by (simp add: EncodeRune_def newline_def char_eq_nat)
  have t1: "TrimSpace TrimFuncIsSpace (?ws @ [newline]) = None"
    using TrimSpace_runes [OF sp'] enc by simp
  have t2: "TrimSpace TrimFuncIsSpace ?ws = None"
    using TrimSpace_runes [OF sp] .
  {
    assume p: "pending (bufReader h) = ?ws @ newline # rest"
    have rb: "ReadBytes (bufReader h) newline
                = (?ws @ [newline], None, (bufReader h)\<lparr>pending := rest\<rparr>)"
      by (simp add: ReadBytes_def p splitDelim_first [OF nl])
    from scanInternal_blank [OF rb _ _ t1]
    show "scanInternal TrimFuncIsSpace h =
             ((None,
               thresholdMet (options (batchHelper h))
                 (currentBytes (batchHelper h) + of_nat (length ?ws + 1))
                 (currentItems (batchHelper h) + 1),
               None),
              \<lparr>batchHelper = (batchHelper h)
                 \<lparr>currentBytes :=
                    (if thresholdMet (options (batchHelper h))
                          (currentBytes (batchHelper h) + of_nat (length ?ws + 1))
                          (currentItems (batchHelper h) + 1)
                     then 0
                     else currentBytes (batchHelper h) + of_nat (length ?ws + 1)),
                  currentItems :=
                    (if thresholdMet (options (batchHelper h))
                          (currentBytes (batchHelper h) + of_nat (length ?ws + 1))
                          (currentItems (batchHelper h) + 1)
                     then 0 else currentItems (batchHelper h) + 1)\<rparr>,
               bufReader = (bufReader h)\<lparr>pending := rest\<rparr>,
               offset = offset h + of_nat (length ?ws + 1)\<rparr>)"
      by simp
    then show "fst (fst (ScanString TrimFuncIsSpace h)) = []"
      by (simp add: ScanString_def string_of_def)
  }
  {
    assume a: "rs \<noteq> [] \<and> pending (bufReader h) = ?ws \<and> terminal (bufReader h) = EOF"
    then obtain r rs' where rs: "rs = r # rs'" by (cases rs) auto
    with sp have "EncodeRune r \<noteq> []"
      using runeAt_EncodeRune [of r "[]"] by simp
    with rs have ne: "?ws \<noteq> []" by simp
    have rb: "ReadBytes (bufReader h) newline
                = (?ws, Some EOF, (bufReader h)\<lparr>pending := []\<rparr>)"
      using a by (simp add: ReadBytes_def splitDelim_absent [OF nl])
    from scanInternal_blank [OF rb _ ne t2]
    show "scanInternal TrimFuncIsSpace h =
             ((None,
               thresholdMet (options (batchHelper h))
                 (currentBytes (batchHelper h) + of_nat (length ?ws))
                 (currentItems (batchHelper h) + 1),
               Some EOF),
              \<lparr>batchHelper = (batchHelper h)
                 \<lparr>currentBytes :=
                    (if thresholdMet (options (batchHelper h))
                          (currentBytes (batchHelper h) + of_nat (length ?ws))
                          (currentItems (batchHelper h) + 1)
                     then 0
                     else currentBytes (batchHelper h) + of_nat (length ?ws)),
                  currentItems :=
                    (if thresholdMet (options (batchHelper h))
                          (currentBytes (batchHelper h) + of_nat (length ?ws))
                          (currentItems (batchHelper h) + 1)
                     then 0 else currentItems (batchHelper h) + 1)\<rparr>,
               bufReader = (bufReader h)\<lparr>pending := []\<rparr>,
               offset = offset h + of_nat (length ?ws)\<rparr>)"
      by simp
    then show "fst (fst (ScanString TrimFuncIsSpace h)) = []"
      by (simp add: ScanString_def string_of_def)
  }
qed

text \<open>
  Claim C8 as stated fails on a last line without a newline: for two spaces at the end
  of the source the scan returns the empty record together with \<open>io.EOF\<close>, not with
  no error.
\<close>

theorem blank_last_line_counterexample:
  "fst (scanInternal TrimFuncIsSpace
          \<lparr>batchHelper = NewBatchHelper [],
           bufReader = \<lparr>pending = [CHR 0x20, CHR 0x20], failure = None\<rparr>, offset = 6\<rparr>)
     = (None, False, Some EOF)"
  by (simp add: evalScanner)

text \<open>
  The theorem on a line of a space, a no-break space and an ideographic space before
  its newline, and on a last line of a tab and a space with a flush due after every
  item.
\<close>

theorem blank_line_is_empty_record_witness:
  "IsSpace 0x20 \<and> IsSpace 0xA0 \<and> IsSpace 0x3000 \<and> IsSpace 0x09
   \<and> concat (map EncodeRune [0x20, 0xA0, 0x3000])
       = [CHR 0x20, CHR 0xC2, CHR 0xA0, CHR 0xE3, CHR 0x80, CHR 0x80]
   \<and> scanInternal TrimFuncIsSpace
        \<lparr>batchHelper = NewBatchHelper [],
         bufReader = \<lparr>pending = [CHR 0x20, CHR 0xC2, CHR 0xA0, CHR 0xE3, CHR 0x80, CHR 0x80]
                                  @ newline # ''next'', failure = None\<rparr>,
         offset = 6\<rparr>
       = ((None, False, None),
          \<lparr>batchHelper =
             \<lparr>options = \<lparr>FlushBytes = 1048576, FlushItems = 1000, Offset = 0\<rparr>,
              currentBytes = 7, currentItems = 1\<rparr>,
           bufReader = \<lparr>pending = ''next'', failure = None\<rparr>,
           offset = 13\<rparr>)
   \<and> concat (map EncodeRune [0x09, 0x20]) = [CHR 0x09, CHR 0x20]
   \<and> scanInternal TrimFuncIsSpace
        \<lparr>batchHelper = NewBatchHelper [WithFlushItems 1],
         bufReader = \<lparr>pending = [CHR 0x09, CHR 0x20], failure = None\<rparr>,
         offset = 6\<rparr>
       = ((None, True, Some EOF),
          \<lparr>batchHelper =
             \<lparr>options = \<lparr>FlushBytes = 1048576, FlushItems = 1, Offset = 0\<rparr>,
              currentBytes = 0, currentItems = 0\<rparr>,
           bufReader = \<lparr>pending = [], failure = None\<rparr>,
           offset = 8\<rparr>)"
proof -
  let ?h1 = "\<lparr>batchHelper = NewBatchHelper [],
         bufReader = \<lparr>pending = [CHR 0x20, CHR 0xC2, CHR 0xA0, CHR 0xE3, CHR 0x80, CHR 0x80]
                                  @ newline # ''next'', failure = None\<rparr>,
         offset = 6\<rparr>"
  let ?h2 = "\<lparr>batchHelper = NewBatchHelper [WithFlushItems 1],
         bufReader = \<lparr>pending = [CHR 0x09, CHR 0x20], failure = None\<rparr>,
         offset = 6\<rparr>"
  have sp: "IsSpace 0x20" "IsSpace 0xA0" "IsSpace 0x3000" "IsSpace 0x09"
    by (simp_all add: IsSpace_def MaxLatin1_def)
  have hyp1: "\<forall>r\<in>set [0x20, 0xA0, 0x3000]. IsSpace r \<and> r \<noteq> 0x0A"
    using sp by simp
  have hyp2: "\<forall>r\<in>set [0x09, 0x20]. IsSpace r \<and> r \<noteq> 0x0A"
    using sp by simp
  have enc1: "concat (map EncodeRune [0x20, 0xA0, 0x3000])
       = [CHR 0x20, CHR 0xC2, CHR 0xA0, CHR 0xE3, CHR 0x80, CHR 0x80]"
    by (simp add: EncodeRune_def char_eq_nat)
  have enc2: "concat (map EncodeRune [0x09, 0x20]) = [CHR 0x09, CHR 0x20]"
    by (simp add: EncodeRune_def char_eq_nat)
  have r1: "scanInternal TrimFuncIsSpace ?h1
       = ((None, False, None),
          \<lparr>batchHelper =
             \<lparr>options = \<lparr>FlushBytes = 1048576, FlushItems = 1000, Offset = 0\<rparr>,
              currentBytes = 7, currentItems = 1\<rparr>,
           bufReader = \<lparr>pending = ''next'', failure = None\<rparr>,
           offset = 13\<rparr>)"
    using blank_line_is_empty_record [OF hyp1, of ?h1 "''next''", unfolded enc1]
    by (simp add: thresholdMet_def NewBatchHelper_def NewDecoderOptions_def
          defaultFlushBytes_def defaultFlushItems_def word_sless_alt word_sle_eq)
  have r2: "scanInternal TrimFuncIsSpace ?h2
       = ((None, True, Some EOF),
          \<lparr>batchHelper =
             \<lparr>options = \<lparr>FlushBytes = 1048576, FlushItems = 1, Offset = 0\<rparr>,
              currentBytes = 0, currentItems = 0\<rparr>,
           bufReader = \<lparr>pending = [], failure = None\<rparr>,
           offset = 8\<rparr>)"
    using blank_line_is_empty_record [OF hyp2, of ?h2, unfolded enc2]
    by (simp add: terminal_def thresholdMet_def NewBatchHelper_def NewDecoderOptions_def
          defaultFlushBytes_def defaultFlushItems_def WithFlushItems_def word_sless_alt
          word_sle_eq)
  from sp enc1 enc2 r1 r2 show ?thesis by simp
qed

subsection \<open>Strings and bytes\<close>

text \<open>
  Claim C10. On the same scanner \<open>ScanString\<close> returns the string of the bytes that
  \<open>ScanBytes\<close> returns, the same flush flag, the same error, and leaves the same
  scanner behind.
\<close>

theorem ScanString_ScanBytes:
  "ScanString uni h =
     (case ScanBytes uni h of ((b, flush, err), h') \<Rightarrow> ((string_of b, flush, err), h'))"
  by (simp add: ScanString_def ScanBytes_def split: prod.splits option.splits)

section \<open>Resuming a session of the line scanner\<close>

lemma sint_of_nat_small: "c < 2 ^ 63 \<Longrightarrow> sint (of_nat c :: 64 word) = int c"
proof -
  assume "c < 2 ^ 63"
  then have "int c < 2 ^ 63" by (metis of_nat_less_iff of_nat_numeral of_nat_power)
  then show ?thesis
    by (simp add: signed_of_nat signed_take_bit_int_eq_self)
qed

lemma of_nat_small_eq_0: "c < 2 ^ 63 \<Longrightarrow> (of_nat c :: 64 word) = 0 \<Longrightarrow> c = 0"
proof -
  assume c: "c < 2 ^ 63" and z: "(of_nat c :: 64 word) = 0"
  from z have "(2::nat) ^ 64 dvd c" by (simp add: word_of_nat_eq_0_iff)
  then show "c = 0" using c by (auto simp: dvd_def)
qed

lemma of_nat_nat_sint: "0 \<le> sint (w :: 64 word) \<Longrightarrow> of_nat (nat (sint w)) = w"
  by simp

lemma applyOptions_append:
  "applyOptions (opts @ [opt]) d = opt (applyOptions opts d)"
  by (induction opts arbitrary: d) simp_all

lemma NewDecoderOptions_WithOffset:
  "NewDecoderOptions (opts @ [WithOffset x]) = (NewDecoderOptions opts)\<lparr>Offset := x\<rparr>"
  by (simp add: NewDecoderOptions_def applyOptions_append WithOffset_def)

lemma consumed_init:
  assumes "NewScannerHelper \<lparr>pending = input, failure = f\<rparr> opts = Inr h"
  shows "consumed input f h"
proof (cases "Offset (NewDecoderOptions opts) = 0")
  case True
  with assms have "offset h = of_nat 0 \<and> bufReader h = \<lparr>pending = drop 0 input, failure = f\<rparr>"
    by (auto simp: NewScannerHelper_def NewBatchHelper_def Let_def)
  then show ?thesis unfolding consumed_def by blast
next
  case False
  let ?o = "Offset (NewDecoderOptions opts)"
  from assms False have ok: "0 \<le> sint ?o" "nat (sint ?o) \<le> length input"
    and h: "offset h = ?o" "bufReader h = \<lparr>pending = drop (nat (sint ?o)) input, failure = f\<rparr>"
    by (auto simp: NewScannerHelper_def NewBatchHelper_def Let_def Discard_def
             split: if_splits)
  from ok(1) have "offset h = of_nat (nat (sint ?o))"
    using h(1) by (simp add: of_nat_nat_sint)
  with ok(2) h(2) show ?thesis unfolding consumed_def by blast
qed

lemma consumed_step:
  assumes "consumed input f h" and "scanInternal uni h = (res, h')" and "\<not> failed res"
  shows "consumed input f h'"
proof -
  from assms(1) obtain c where c: "c \<le> length input" "offset h = of_nat c"
      "bufReader h = \<lparr>pending = drop c input, failure = f\<rparr>"
    unfolding consumed_def by blast
  obtain b err rd' where rb: "ReadBytes (bufReader h) newline = (b, err, rd')"
    by (cases "ReadBytes (bufReader h) newline")
  from scanInternal_offset [OF assms(2,3)] rb
  have o: "offset h' = offset h + of_nat (length b)" and r: "bufReader h' = rd'"
    by simp_all
  from ReadBytes_shape [OF rb] c(3)
  have p: "pending rd' = drop (length b) (drop c input)" and l: "length b \<le> length input - c"
    and fl: "failure rd' = f"
    by simp_all
  have "c + length b \<le> length input" using l c(1) by simp
  moreover have "offset h' = of_nat (c + length b)" using o c(2) by simp
  moreover have "bufReader h' = \<lparr>pending = drop (c + length b) input, failure = f\<rparr>"
    using r p fl by (cases rd') (simp add: add.commute)
  ultimately show ?thesis unfolding consumed_def by blast
qed

lemma consumed_scans:
  "consumed input f h \<Longrightarrow> scans uni k h = (ress, hk) \<Longrightarrow> \<forall>res\<in>set ress. \<not> failed res \<Longrightarrow>
     consumed input f hk"
proof (induction k arbitrary: h ress)
  case 0
  then show ?case by simp
next
  case (Suc k)
  obtain res h1 where s1: "scanInternal uni h = (res, h1)"
    by (cases "scanInternal uni h")
  obtain ress1 where s2: "scans uni k h1 = (ress1, hk)" and r: "ress = res # ress1"
    using Suc.prems(2) s1 by (auto split: prod.splits)
  from Suc.prems(3) r have nf: "\<not> failed res" "\<forall>res\<in>set ress1. \<not> failed res" by simp_all
  from consumed_step [OF Suc.prems(1) s1 nf(1)] Suc.IH [OF _ s2 nf(2)] show ?case by blast
qed

lemma resume_constructs:
  assumes "consumed input f hk" and "length input < 2 ^ 63"
  shows "\<exists>h'. NewScannerHelper \<lparr>pending = input, failure = f\<rparr> (opts @ [WithOffset (offset hk)]) = Inr h'
            \<and> sameStream h' hk
            \<and> currentBytes (batchHelper h') = 0 \<and> currentItems (batchHelper h') = 0
            \<and> options (batchHelper h') = (NewDecoderOptions opts)\<lparr>Offset := offset hk\<rparr>"
proof -
  from assms(1) obtain c where c: "c \<le> length input" "offset hk = of_nat c"
      "bufReader hk = \<lparr>pending = drop c input, failure = f\<rparr>"
    unfolding consumed_def by blast
  have small: "c < 2 ^ 63" using c(1) assms(2) by simp
  show ?thesis
  proof (cases "offset hk = 0")
    case True
    with c(2) small have "c = 0" by (simp add: of_nat_small_eq_0)
    with True c(3) show ?thesis
      by (simp add: NewScannerHelper_def NewBatchHelper_def NewDecoderOptions_WithOffset
            sameStream_def)
  next
    case False
    have "sint (offset hk) = int c" using c(2) small by (simp add: sint_of_nat_small)
    with False c(1,3) show ?thesis
      by (simp add: NewScannerHelper_def NewBatchHelper_def NewDecoderOptions_WithOffset
            sameStream_def Discard_def)
  qed
qed

lemma scanInternal_sameStream:
  assumes "sameStream h1 h2"
    and "scanInternal uni h1 = (r1, h1')" and "scanInternal uni h2 = (r2, h2')"
  shows "recordAndError r1 = recordAndError r2 \<and> sameStream h1' h2'"
  using assms unfolding sameStream_def
  by (cases "ReadBytes (bufReader h2) newline")
     (auto simp: scanInternal_def Let_def split: if_splits)

lemma scanInternal_sameTracker:
  assumes "sameStream h1 h2" and "sameTracker h1 h2"
    and "scanInternal uni h1 = (r1, h1')" and "scanInternal uni h2 = (r2, h2')"
  shows "r1 = r2 \<and> sameTracker h1' h2'"
  using assms unfolding sameStream_def sameTracker_def
  by (cases "ReadBytes (bufReader h2) newline")
     (auto simp: scanInternal_def Let_def ShouldFlush_def IncrementBytes_def IncrementItems_def
         Reset_def split: if_splits)

lemma scans_sameStream:
  "sameStream h1 h2 \<Longrightarrow>
     map recordAndError (fst (scans uni n h1)) = map recordAndError (fst (scans uni n h2))
     \<and> sameStream (snd (scans uni n h1)) (snd (scans uni n h2))"
proof (induction n arbitrary: h1 h2)
  case 0
  then show ?case by simp
next
  case (Suc n)
  obtain r1 h1' where a: "scanInternal uni h1 = (r1, h1')" by (cases "scanInternal uni h1")
  obtain r2 h2' where b: "scanInternal uni h2 = (r2, h2')" by (cases "scanInternal uni h2")
  from scanInternal_sameStream [OF Suc.prems a b] Suc.IH [of h1' h2'] a b show ?case
    by (auto split: prod.splits)
qed

lemma scans_sameTracker:
  "sameStream h1 h2 \<Longrightarrow> sameTracker h1 h2 \<Longrightarrow> fst (scans uni n h1) = fst (scans uni n h2)"
proof (induction n arbitrary: h1 h2)
  case 0
  then show ?case by simp
next
  case (Suc n)
  obtain r1 h1' where a: "scanInternal uni h1 = (r1, h1')" by (cases "scanInternal uni h1")
  obtain r2 h2' where b: "scanInternal uni h2 = (r2, h2')" by (cases "scanInternal uni h2")
  from scanInternal_sameStream [OF Suc.prems(1) a b]
       scanInternal_sameTracker [OF Suc.prems a b] Suc.IH [of h1' h2'] a b show ?case
    by (auto split: prod.splits)
qed

lemma scanInternal_options:
  "scanInternal uni h = (res, h') \<Longrightarrow> options (batchHelper h') = options (batchHelper h)"
  by (cases "ReadBytes (bufReader h) newline")
     (auto simp: scanInternal_def Let_def IncrementBytes_def IncrementItems_def
         Reset_def split: if_splits)

lemma scans_options:
  "scans uni n h = (ress, h') \<Longrightarrow> options (batchHelper h') = options (batchHelper h)"
proof (induction n arbitrary: h ress)
  case 0
  then show ?case by simp
next
  case (Suc n)
  obtain res h1 where s1: "scanInternal uni h = (res, h1)"
    by (cases "scanInternal uni h")
  obtain ress1 where s2: "scans uni n h1 = (ress1, h')"
    using Suc.prems s1 by (auto split: prod.splits)
  from Suc.IH [OF s2] scanInternal_options [OF s1] show ?case by simp
qed

text \<open>
  Claim C4, amended. For an input shorter than \<open>2 ^ 63\<close> bytes and a session that has
  made \<open>k\<close> scans, none failed: a fresh scanner over the same input, with the same
  options and the initial offset set to the \<open>Offset()\<close> of the session, is made without
  error, and its next \<open>n\<close> scans return the same records and the same errors
  (\<open>io.EOF\<close> among them) as the next \<open>n\<close> scans of the session. The flush flags are
  the same as well when the counters of the session's tracker are zero at that point.
\<close>

theorem resume_reproduces_records:
  assumes "length input < 2 ^ 63"
    and "session uni \<lparr>pending = input, failure = f\<rparr> opts k = Some (ress, hk)"
    and "\<forall>res\<in>set ress. \<not> failed res"
  shows "map_option (map recordAndError \<circ> fst)
           (session uni \<lparr>pending = input, failure = f\<rparr> (opts @ [WithOffset (ScannerOffset hk)]) n)
         = Some (map recordAndError (fst (scans uni n hk)))
       \<and> (currentBytes (batchHelper hk) = 0 \<and> currentItems (batchHelper hk) = 0 \<longrightarrow>
            map_option fst
              (session uni \<lparr>pending = input, failure = f\<rparr> (opts @ [WithOffset (ScannerOffset hk)]) n)
            = Some (fst (scans uni n hk)))"
proof -
  from assms(2) obtain h0 where
    h0: "NewScannerHelper \<lparr>pending = input, failure = f\<rparr> opts = Inr h0"
    and sk: "scans uni k h0 = (ress, hk)"
    by (auto simp: session_def split: sum.splits)
  have ck: "consumed input f hk"
    using consumed_scans [OF consumed_init [OF h0] sk assms(3)] .
  from resume_constructs [OF ck assms(1), of opts] obtain h' where
    n: "NewScannerHelper \<lparr>pending = input, failure = f\<rparr> (opts @ [WithOffset (offset hk)]) = Inr h'"
    and ss: "sameStream h' hk"
    and z: "currentBytes (batchHelper h') = 0" "currentItems (batchHelper h') = 0"
    and o: "options (batchHelper h') = (NewDecoderOptions opts)\<lparr>Offset := offset hk\<rparr>"
    by blast
  have "options (batchHelper h0) = NewDecoderOptions opts"
    using h0 by (auto simp: NewScannerHelper_def NewBatchHelper_def Let_def split: if_splits prod.splits option.splits)
  with scans_options [OF sk] have ok: "options (batchHelper hk) = NewDecoderOptions opts"
    by simp
  have recs: "map recordAndError (fst (scans uni n h')) = map recordAndError (fst (scans uni n hk))"
    using scans_sameStream [OF ss] by simp
  have flags: "fst (scans uni n h') = fst (scans uni n hk)"
    if "currentBytes (batchHelper hk) = 0 \<and> currentItems (batchHelper hk) = 0"
  proof -
    have "sameTracker h' hk" using that z o ok by (simp add: sameTracker_def)
    with ss show ?thesis by (rule scans_sameTracker)
  qed
  from recs flags n show ?thesis
    by (simp add: session_def ScannerOffset_def)
qed

text \<open>
  Claim C4 as stated fails on the flush flags. Over three lines with a flush every two
  items, the session reports the offset 2 after its first scan and then flushes with
  \<open>b\<close> and not with \<open>c\<close>; a fresh scanner with the initial offset 2 counts from
  zero: it does not flush with \<open>b\<close> and flushes with \<open>c\<close>.
\<close>

theorem resume_flush_flags_counterexample:
  "map_option (ScannerOffset \<circ> snd)
     (session Some \<lparr>pending = exampleABC, failure = None\<rparr> [WithFlushItems 2] 1) = Some 2
   \<and> map_option fst (session Some \<lparr>pending = exampleABC, failure = None\<rparr> [WithFlushItems 2] 3)
       = Some [(Some ''a'', False, None), (Some ''b'', True, None), (Some ''c'', False, None)]
   \<and> map_option fst
       (session Some \<lparr>pending = exampleABC, failure = None\<rparr> ([WithFlushItems 2] @ [WithOffset 2]) 2)
       = Some [(Some ''b'', False, None), (Some ''c'', True, None)]"
  by (simp add: session_def exampleABC_def evalScanner eval_nat_numeral)

text \<open>
  The theorem on the same input, resumed after two scans, where the session has just
  flushed: the fresh scanner returns \<open>c\<close> and the end of the stream as the session
  does, flags included.
\<close>

theorem resume_reproduces_records_witness:
  "length exampleABC < 2 ^ 63
   \<and> map_option fst (session Some \<lparr>pending = exampleABC, failure = None\<rparr> [WithFlushItems 2] 2)
       = Some [(Some ''a'', False, None), (Some ''b'', True, None)]
   \<and> map_option (ScannerOffset \<circ> snd)
       (session Some \<lparr>pending = exampleABC, failure = None\<rparr> [WithFlushItems 2] 2) = Some 4
   \<and> map_option fst
       (session Some \<lparr>pending = exampleABC, failure = None\<rparr> ([WithFlushItems 2] @ [WithOffset 4]) 2)
       = Some [(Some ''c'', False, None), (None, True, Some EOF)]"
proof -
  let ?hk = "\<lparr>batchHelper =
               \<lparr>options = \<lparr>FlushBytes = 1048576, FlushItems = 2, Offset = 0\<rparr>,
                currentBytes = 0, currentItems = 0\<rparr>,
             bufReader = \<lparr>pending = ''c'' @ [newline], failure = None\<rparr>,
             offset = 4\<rparr>"
  let ?ress = "[(Some ''a'', False, None), (Some ''b'', True, None)]"
  have l: "length exampleABC < 2 ^ 63"
    by (simp add: exampleABC_def)
  have s: "session Some \<lparr>pending = exampleABC, failure = None\<rparr> [WithFlushItems 2] 2
             = Some (?ress, ?hk)"
    by (simp add: session_def exampleABC_def evalScanner eval_nat_numeral)
  have nf: "\<forall>res\<in>set ?ress. \<not> failed res"
    by simp
  have c: "fst (scans Some 2 ?hk) = [(Some ''c'', False, None), (None, True, Some EOF)]"
    by (simp add: evalScanner eval_nat_numeral)
  from resume_reproduces_records [OF l s nf, of 2] l s c show ?thesis
    by (simp add: ScannerOffset_def)
qed

section \<open>Properties of the text codec\<close>

lemma joinWith_Cons: "ys \<noteq> [] \<Longrightarrow> joinWith sep (x # ys) = x @ sep @ joinWith sep ys"
  by (cases ys) simp_all

lemma marshalRecords_join:
  "marshalRecords sep lrs (b, a) =
     (if lrs = [] then (b, a)
      else (b @ (if a then sep else []) @ joinWith sep (map body lrs), True))"
proof (induction lrs arbitrary: b a)
  case Nil
  then show ?case by simp
next
  case (Cons lr lrs)
  then show ?case by (cases "lrs = []") (simp_all add: joinWith_Cons)
qed

lemma marshalRecords_append:
  "marshalRecords sep (xs @ ys) st = marshalRecords sep ys (marshalRecords sep xs st)"
proof (induction xs arbitrary: st)
  case Nil
  then show ?case by simp
next
  case (Cons x xs)
  then show ?case by (cases st) simp
qed

lemma marshalScopes_concat:
  "marshalScopes sep sls st = marshalRecords sep (concat sls) st"
  by (induction sls arbitrary: st) (simp_all add: marshalRecords_append)

lemma marshalResources_concat:
  "marshalResources sep rls st = marshalRecords sep (concat (concat rls)) st"
  by (induction rls arbitrary: st)
     (simp_all add: marshalRecords_append marshalScopes_concat)

lemma length_joinWith:
  "length (joinWith sep xs) = sum_list (map length xs) + (length xs - 1) * length sep"
  by (induction sep xs rule: joinWith.induct) simp_all

text \<open>
  Claim C7. For every codec, whatever its separator, and every batch, \<open>MarshalLogs\<close>
  returns the bodies of the records, in order, with the separator between each two of
  them and nowhere else: \<open>K\<close> records give \<open>K - 1\<close> separators (the length of the
  result is that of the bodies plus \<open>K - 1\<close> times that of the separator), and no
  record gives the empty result. No flush threshold enters: \<open>MarshalLogs\<close> reads the
  separator and the batch only.
\<close>

theorem MarshalLogs_joins_records:
  "MarshalLogs r ld = joinWith (marshalingSeparator r) (map body (allRecords ld))
   \<and> length (MarshalLogs r ld)
       = sum_list (map (length \<circ> body) (allRecords ld))
         + (length (allRecords ld) - 1) * length (marshalingSeparator r)"
proof -
  have "MarshalLogs r ld = joinWith (marshalingSeparator r) (map body (allRecords ld))"
    by (cases "allRecords ld = []")
       (simp_all add: MarshalLogs_def marshalResources_concat marshalRecords_join
          allRecords_def del: concat_eq_Nil_conv)
  then show ?thesis
    by (simp add: length_joinWith comp_def)
qed

text \<open>
  The theorem on three records spread over two resource entries, and on no record.
\<close>

theorem MarshalLogs_joins_records_witness:
  "MarshalLogs \<lparr>decoder = Inr, marshalingSeparator = '', '', unmarshalingSeparator = None\<rparr>
     [[[\<lparr>observedTimestamp = 0, body = ''a''\<rparr>, \<lparr>observedTimestamp = 0, body = ''b''\<rparr>], []],
      [], [[\<lparr>observedTimestamp = 0, body = ''c''\<rparr>]]] = ''a, b, c''
   \<and> MarshalLogs \<lparr>decoder = Inr, marshalingSeparator = '', '', unmarshalingSeparator = None\<rparr> [] = []"
  using MarshalLogs_joins_records
     [of "\<lparr>decoder = Inr, marshalingSeparator = '', '', unmarshalingSeparator = None\<rparr>"
         "[[[\<lparr>observedTimestamp = 0, body = ''a''\<rparr>, \<lparr>observedTimestamp = 0, body = ''b''\<rparr>], []],
      [], [[\<lparr>observedTimestamp = 0, body = ''c''\<rparr>]]]"]
    MarshalLogs_joins_records
     [of "\<lparr>decoder = Inr, marshalingSeparator = '', '', unmarshalingSeparator = None\<rparr>" "[]"]
  by (simp add: allRecords_def)

section \<open>The tokenizer of pattern mode\<close>











text \<open>The definitions that evaluate the decoder on a concrete input.\<close>

lemmas evalDecoder =
  UnmarshalLogs_def NewLogsDecoder_def DecodeLogs_def NewScanner_def CopyN_def Options_def
  NewBatchHelper_def NewDecoderOptions_def defaultFlushBytes_def defaultFlushItems_def
  WithOffset_def WithFlushBytes_def WithFlushItems_def
  Scan.simps scanStep_def trySplit_def makeRoom_def readMore_def Read_def setErr_def Err_def
  Bytes_def string_of_def terminal_def maxTokenSize_def startBufSize_def
  maxConsecutiveEmptyReads_def splitOf_def splitPattern_def splitWhole_def findByte_def
  appendRecord_def LogRecordCount_def ShouldFlush_def IncrementBytes_def IncrementItems_def
  Reset_def Let_def word_sless_alt word_sle_eq newline_def exampleCodec_def

lemma decodeLoop_numeral:
  "decodeLoop (numeral k) r now p d =
     (case Scan (splitOf r) (scanner d, offsetTracker d) of
        (res, s', off') \<Rightarrow>
          let d1 = d\<lparr>scanner := s', offsetTracker := off'\<rparr> in
          (case res of
             ScanPanic \<Rightarrow> Some (Panic, d1)
           | ScanFalse \<Rightarrow>
               (case Err s' of
                  Some err \<Rightarrow> Some (Return (p, Some err), d1)
                | None \<Rightarrow>
                    if LogRecordCount p = 0 then Some (Return (p, Some EOF), d1)
                    else Some (Return (p, None), d1))
           | ScanTrue \<Rightarrow>
               let b = Bytes s' in
               (case decoder r b of
                  Inl err \<Rightarrow> Some (Return (appendRecord p now [], Some err), d1)
                | Inr decoded \<Rightarrow>
                    let p' = appendRecord p now decoded;
                        bh1 = IncrementItems (tracker d1) 1;
                        bh2 = IncrementBytes bh1 (of_nat (length b))
                    in
                    if ShouldFlush bh2 then
                      Some (Return (p', None), d1\<lparr>tracker := Reset bh2\<rparr>)
                    else decodeLoop (pred_numeral k) r now p' (d1\<lparr>tracker := bh2\<rparr>))))"
  using decodeLoop.simps(2) [of "pred_numeral k" r now p d]
  by (simp only: numeral_eq_Suc)

lemma scanTokens_numeral:
  "scanTokens (numeral k) split st =
     (case Scan split st of
        (res, s', off') \<Rightarrow>
          (case res of
             ScanTrue \<Rightarrow> Bytes s' # scanTokens (pred_numeral k) split (s', off')
           | ScanFalse \<Rightarrow> []
           | ScanPanic \<Rightarrow> []))"
  using scanTokens.simps(2) [of "pred_numeral k" split st]
  by (simp only: numeral_eq_Suc)



section \<open>The decode loop\<close>

lemma ShouldFlush_thresholdMet:
  "ShouldFlush bh = thresholdMet (options bh) (currentBytes bh) (currentItems bh)"
  by (simp add: ShouldFlush_def thresholdMet_def)

lemma decodeLoop_batch:
  "batchOf r (options (tracker d)) (currentBytes (tracker d)) (currentItems (tracker d))
       (scanTokens fuel (splitOf r) (scanner d, offsetTracker d)) = (ts, (nbytes, nitems), stopped)
   \<Longrightarrow> stopped \<or> scanEnd fuel (splitOf r) (scanner d, offsetTracker d) = Some ScanFalse
   \<Longrightarrow> \<exists>err d'. decodeLoop fuel r now p d
                 = Some (Return (p @ map (\<lambda>b. [[recordOf r now b]]) ts, err), d')
               \<and> tracker d' = (tracker d)\<lparr>currentBytes := nbytes, currentItems := nitems\<rparr>"
proof (induction fuel arbitrary: p d ts nbytes nitems stopped)
  case 0
  then show ?case by simp
next
  case (Suc fuel)
  obtain res s' off' where sc: "Scan (splitOf r) (scanner d, offsetTracker d) = (res, s', off')"
    by (cases "Scan (splitOf r) (scanner d, offsetTracker d)")
  let ?d1 = "d\<lparr>scanner := s', offsetTracker := off'\<rparr>"
  show ?case
  proof (cases res)
    case ScanPanic
    with Suc.prems sc show ?thesis by simp
  next
    case ScanFalse
    with Suc.prems(1) sc have "ts = []" "nbytes = currentBytes (tracker d)"
        "nitems = currentItems (tracker d)"
      by simp_all
    with ScanFalse sc show ?thesis
      by (cases "Err s'") (simp_all add: Let_def)
  next
    case ScanTrue
    let ?b = "Bytes s'"
    let ?toks' = "scanTokens fuel (splitOf r) (s', off')"
    have toks: "scanTokens (Suc fuel) (splitOf r) (scanner d, offsetTracker d) = ?b # ?toks'"
      using sc ScanTrue by simp
    have ends: "scanEnd (Suc fuel) (splitOf r) (scanner d, offsetTracker d)
                  = scanEnd fuel (splitOf r) (s', off')"
      using sc ScanTrue by simp
    show ?thesis
    proof (cases "decoder r ?b")
      case (Inl e)
      then have nt: "\<not> transformed r ?b" and rec: "recordOf r now ?b = \<lparr>observedTimestamp = now, body = []\<rparr>"
        by (simp_all add: transformed_def recordOf_def)
      from Suc.prems(1) toks nt have "ts = [?b]" "nbytes = currentBytes (tracker d)"
          "nitems = currentItems (tracker d)"
        by simp_all
      with sc ScanTrue Inl rec show ?thesis
        by (simp add: Let_def appendRecord_def)
    next
      case (Inr decoded)
      then have tr: "transformed r ?b"
        and rec: "recordOf r now ?b = \<lparr>observedTimestamp = now, body = decoded\<rparr>"
        by (simp_all add: transformed_def recordOf_def)
      let ?bh2 = "IncrementBytes (IncrementItems (tracker d) 1) (of_nat (length ?b))"
      have bh2: "options ?bh2 = options (tracker d)"
          "currentBytes ?bh2 = currentBytes (tracker d) + of_nat (length ?b)"
          "currentItems ?bh2 = currentItems (tracker d) + 1"
        by (simp_all add: IncrementBytes_def IncrementItems_def)
      show ?thesis
      proof (cases "ShouldFlush ?bh2")
        case True
        then have met: "thresholdMet (options (tracker d))
                          (currentBytes (tracker d) + of_nat (length ?b))
                          (currentItems (tracker d) + 1)"
          by (simp add: ShouldFlush_thresholdMet bh2)
        from Suc.prems(1) toks tr met have "ts = [?b]" "nbytes = 0" "nitems = 0"
          by simp_all
        with sc ScanTrue Inr rec True show ?thesis
          by (simp add: Let_def appendRecord_def Reset_def IncrementBytes_def
                IncrementItems_def)
      next
        case False
        then have nmet: "\<not> thresholdMet (options (tracker d))
                          (currentBytes (tracker d) + of_nat (length ?b))
                          (currentItems (tracker d) + 1)"
          by (simp add: ShouldFlush_thresholdMet bh2)
        let ?d2 = "?d1\<lparr>tracker := ?bh2\<rparr>"
        obtain ts' where
          b': "batchOf r (options (tracker ?d2)) (currentBytes (tracker ?d2))
                 (currentItems (tracker ?d2))
                 (scanTokens fuel (splitOf r) (scanner ?d2, offsetTracker ?d2))
               = (ts', (nbytes, nitems), stopped)"
          and ts: "ts = ?b # ts'"
          using Suc.prems(1) toks tr nmet bh2 by (auto split: prod.splits)
        have e': "stopped \<or> scanEnd fuel (splitOf r) (scanner ?d2, offsetTracker ?d2)
                    = Some ScanFalse"
          using Suc.prems(2) ends by simp
        from Suc.IH [OF b' e', of "appendRecord p now decoded"]
        obtain err d' where
          r: "decodeLoop fuel r now (appendRecord p now decoded) ?d2
                = Some (Return (appendRecord p now decoded
                          @ map (\<lambda>b. [[recordOf r now b]]) ts', err), d')"
          and t: "tracker d' = (tracker ?d2)\<lparr>currentBytes := nbytes, currentItems := nitems\<rparr>"
          by blast
        have "decodeLoop (Suc fuel) r now p d
                = decodeLoop fuel r now (appendRecord p now decoded) ?d2"
          using sc ScanTrue Inr False by (simp add: Let_def)
        with r t ts rec show ?thesis
          by (simp add: appendRecord_def IncrementBytes_def IncrementItems_def
                del: decodeLoop.simps)
      qed
    qed
  qed
qed

lemma batchOf_not_stopped:
  "batchOf r opts nbytes nitems toks = (ts, counters, False) \<Longrightarrow> ts = toks"
  by (induction toks arbitrary: nbytes nitems ts)
     (auto split: if_splits prod.splits)

lemma batchOf_disabled:
  assumes "FlushBytes opts = 0" and "FlushItems opts = 0"
    and "\<forall>b\<in>set toks. transformed r b"
  shows "batchOf r opts nbytes nitems toks
           = (toks, (nbytes + of_nat (sum_list (map length toks)),
                     nitems + of_nat (length toks)), False)"
  using assms(3)
proof (induction toks arbitrary: nbytes nitems)
  case Nil
  then show ?case by simp
next
  case (Cons b toks)
  have "\<not> thresholdMet opts x y" for x y
    using assms(1,2) by (simp add: thresholdMet_def)
  with Cons show ?case
    by (simp add: add.assoc add.commute)
qed

lemma decodeLoop_returns:
  "decodeLoop fuel r now p d = Some (Return res, d')
   \<Longrightarrow> batchOf r (options (tracker d)) (currentBytes (tracker d)) (currentItems (tracker d))
       (scanTokens fuel (splitOf r) (scanner d, offsetTracker d)) = (ts, counters, stopped)
   \<Longrightarrow> stopped \<or> scanEnd fuel (splitOf r) (scanner d, offsetTracker d) = Some ScanFalse"
proof (induction fuel arbitrary: p d ts)
  case 0
  then show ?case by simp
next
  case (Suc fuel)
  obtain sr s' off' where sc: "Scan (splitOf r) (scanner d, offsetTracker d) = (sr, s', off')"
    by (cases "Scan (splitOf r) (scanner d, offsetTracker d)")
  let ?d1 = "d\<lparr>scanner := s', offsetTracker := off'\<rparr>"
  show ?case
  proof (cases sr)
    case ScanPanic
    with Suc.prems(1) sc show ?thesis by simp
  next
    case ScanFalse
    with sc show ?thesis by simp
  next
    case ScanTrue
    let ?b = "Bytes s'"
    have toks: "scanTokens (Suc fuel) (splitOf r) (scanner d, offsetTracker d)
                  = ?b # scanTokens fuel (splitOf r) (s', off')"
      using sc ScanTrue by simp
    have ends: "scanEnd (Suc fuel) (splitOf r) (scanner d, offsetTracker d)
                  = scanEnd fuel (splitOf r) (s', off')"
      using sc ScanTrue by simp
    show ?thesis
    proof (cases "decoder r ?b")
      case (Inl e)
      then have "\<not> transformed r ?b" by (simp add: transformed_def)
      with Suc.prems(2) toks show ?thesis by simp
    next
      case (Inr decoded)
      then have tr: "transformed r ?b" by (simp add: transformed_def)
      let ?bh2 = "IncrementBytes (IncrementItems (tracker d) 1) (of_nat (length ?b))"
      have bh2: "options ?bh2 = options (tracker d)"
          "currentBytes ?bh2 = currentBytes (tracker d) + of_nat (length ?b)"
          "currentItems ?bh2 = currentItems (tracker d) + 1"
        by (simp_all add: IncrementBytes_def IncrementItems_def)
      show ?thesis
      proof (cases "ShouldFlush ?bh2")
        case True
        then have "thresholdMet (options (tracker d))
                          (currentBytes (tracker d) + of_nat (length ?b))
                          (currentItems (tracker d) + 1)"
          by (simp add: ShouldFlush_thresholdMet bh2)
        with Suc.prems(2) toks tr show ?thesis by simp
      next
        case False
        then have nmet: "\<not> thresholdMet (options (tracker d))
                          (currentBytes (tracker d) + of_nat (length ?b))
                          (currentItems (tracker d) + 1)"
          by (simp add: ShouldFlush_thresholdMet bh2)
        let ?d2 = "?d1\<lparr>tracker := ?bh2\<rparr>"
        obtain ts' where
          b': "batchOf r (options (tracker ?d2)) (currentBytes (tracker ?d2))
                 (currentItems (tracker ?d2))
                 (scanTokens fuel (splitOf r) (scanner ?d2, offsetTracker ?d2))
               = (ts', counters, stopped)"
          using Suc.prems(2) toks tr nmet bh2 by (auto split: prod.splits)
        have "decodeLoop fuel r now (appendRecord p now decoded) ?d2 = Some (Return res, d')"
          using Suc.prems(1) sc ScanTrue Inr False by (simp add: Let_def)
        from Suc.IH [OF this b'] ends show ?thesis by simp
      qed
    qed
  qed
qed

text \<open>
  Claim C5, amended. A decode call takes the tokens that the scanner yields one after
  the other, empty tokens included, and stops at the first token whose transformation
  fails or with which the counts of the tracker meet a threshold. The call returns
  exactly when it stops so or the scanner comes to its end. The batch it then returns
  has, in order, one record for each token taken and no other: the body of a record is
  the transformed token, left empty when the transformation fails, so an empty token
  gives a record with an empty body. The tracker has then counted one item and the
  length of the token before its transformation for each token transformed, and is
  back at zero when these counts met a threshold. A call that did not stop at a token
  has taken every token; with both thresholds disabled and every transformation
  succeeding the counters have grown by the number of the tokens and by the sum of
  their lengths.
\<close>

theorem decode_appends_every_token:
  assumes "batchOf r (options (tracker d)) (currentBytes (tracker d)) (currentItems (tracker d))
             (scanTokens fuel (splitOf r) (scanner d, offsetTracker d))
           = (ts, (nbytes, nitems), stopped)"
  shows "((\<exists>res d'. DecodeLogs fuel r now d = Some (Return res, d'))
            \<longleftrightarrow> (stopped \<or> scanEnd fuel (splitOf r) (scanner d, offsetTracker d)
                               = Some ScanFalse))
       \<and> (stopped \<or> scanEnd fuel (splitOf r) (scanner d, offsetTracker d) = Some ScanFalse \<longrightarrow>
            (\<exists>err d'. DecodeLogs fuel r now d
                         = Some (Return (map (\<lambda>b. [[recordOf r now b]]) ts, err), d')
                      \<and> tracker d'
                         = (tracker d)\<lparr>currentBytes := nbytes, currentItems := nitems\<rparr>))
       \<and> (\<not> stopped \<longrightarrow> ts = scanTokens fuel (splitOf r) (scanner d, offsetTracker d))
       \<and> (FlushBytes (options (tracker d)) = 0 \<and> FlushItems (options (tracker d)) = 0
            \<and> (\<forall>b\<in>set (scanTokens fuel (splitOf r) (scanner d, offsetTracker d)).
                  transformed r b) \<longrightarrow>
            ts = scanTokens fuel (splitOf r) (scanner d, offsetTracker d)
            \<and> nbytes = currentBytes (tracker d)
                + of_nat (sum_list (map length
                    (scanTokens fuel (splitOf r) (scanner d, offsetTracker d))))
            \<and> nitems = currentItems (tracker d)
                + of_nat (length (scanTokens fuel (splitOf r) (scanner d, offsetTracker d))))"
proof -
  let ?toks = "scanTokens fuel (splitOf r) (scanner d, offsetTracker d)"
  let ?ends = "stopped \<or> scanEnd fuel (splitOf r) (scanner d, offsetTracker d) = Some ScanFalse"
  have total: "\<exists>err d'. DecodeLogs fuel r now d
                         = Some (Return (map (\<lambda>b. [[recordOf r now b]]) ts, err), d')
                      \<and> tracker d'
                         = (tracker d)\<lparr>currentBytes := nbytes, currentItems := nitems\<rparr>"
    if ?ends
    using decodeLoop_batch [OF assms that, of now "[]"] by (simp add: DecodeLogs_def)
  have only: ?ends if "\<exists>res d'. DecodeLogs fuel r now d = Some (Return res, d')"
    using that decodeLoop_returns [OF _ assms] by (auto simp: DecodeLogs_def)
  have all: "ts = ?toks" if "\<not> stopped"
    using assms that by (auto dest: batchOf_not_stopped)
  have dis: "ts = ?toks
            \<and> nbytes = currentBytes (tracker d) + of_nat (sum_list (map length ?toks))
            \<and> nitems = currentItems (tracker d) + of_nat (length ?toks)"
    if "FlushBytes (options (tracker d)) = 0 \<and> FlushItems (options (tracker d)) = 0
          \<and> (\<forall>b\<in>set ?toks. transformed r b)"
  proof -
    have "batchOf r (options (tracker d)) (currentBytes (tracker d)) (currentItems (tracker d))
            ?toks
          = (?toks, (currentBytes (tracker d) + of_nat (sum_list (map length ?toks)),
                     currentItems (tracker d) + of_nat (length ?toks)), False)"
      using that by (intro batchOf_disabled) simp_all
    with assms have "(ts, (nbytes, nitems), stopped)
          = (?toks, (currentBytes (tracker d) + of_nat (sum_list (map length ?toks)),
                     currentItems (tracker d) + of_nat (length ?toks)), False)"
      by metis
    then show ?thesis by (elim Pair_inject) blast
  qed
  from total only all dis show ?thesis by blast
qed

text \<open>
  Claim C5 as stated fails on an empty token: between two adjacent newlines the
  scanner yields the empty token, and the batch has a record for it, with an empty
  body.
\<close>

theorem empty_token_record_counterexample:
  "scanTokens 5 (splitOf exampleCodec)
     (NewScanner \<lparr>pending = ''a'' @ [newline] @ [newline] @ ''b'', failure = None\<rparr>, 0)
     = [''a'', [], ''b'']
   \<and> UnmarshalLogs 5 exampleCodec 7 (''a'' @ [newline] @ [newline] @ ''b'')
     = Some (Return ([[[\<lparr>observedTimestamp = 7, body = ''a''\<rparr>]],
                      [[\<lparr>observedTimestamp = 7, body = []\<rparr>]],
                      [[\<lparr>observedTimestamp = 7, body = ''b''\<rparr>]]], None))"
  by (simp add: evalDecoder scanTokens_numeral decodeLoop_numeral
        cong: prod.case_cong_weak let_weak_cong)

lemma scanEnd_numeral:
  "scanEnd (numeral k) split st =
     (case Scan split st of
        (res, s', off') \<Rightarrow>
          (case res of
             ScanTrue \<Rightarrow> scanEnd (pred_numeral k) split (s', off')
           | ScanFalse \<Rightarrow> Some ScanFalse
           | ScanPanic \<Rightarrow> Some ScanPanic))"
  using scanEnd.simps(2) [of "pred_numeral k" split st]
  by (simp only: numeral_eq_Suc)

text \<open>
  The theorem on the same input. With a flush every two items the call stops at the
  second token, the empty one, returns the records of the first two tokens and leaves
  the counters at zero; with both thresholds disabled it returns the records of all
  three tokens and has counted three items and two bytes.
\<close>

theorem decode_appends_every_token_witness:
  "batchOf exampleCodec \<lparr>FlushBytes = 1048576, FlushItems = 2, Offset = 0\<rparr> 0 0
       [''a'', [], ''b''] = ([''a'', []], (0, 0), True)
   \<and> map_option fst
       (DecodeLogs 5 exampleCodec 7
          \<lparr>scanner = NewScanner \<lparr>pending = ''a'' @ [newline] @ [newline] @ ''b'', failure = None\<rparr>,
           tracker = NewBatchHelper [WithFlushItems 2], offsetTracker = 0\<rparr>)
       = Some (Return ([[[\<lparr>observedTimestamp = 7, body = ''a''\<rparr>]],
                        [[\<lparr>observedTimestamp = 7, body = []\<rparr>]]], None))
   \<and> batchOf exampleCodec \<lparr>FlushBytes = 0, FlushItems = 0, Offset = 0\<rparr> 0 0
       [''a'', [], ''b''] = ([''a'', [], ''b''], (2, 3), False)
   \<and> transformed exampleCodec ''a'' \<and> transformed exampleCodec [] \<and> transformed exampleCodec ''b''
   \<and> scanEnd 5 (splitOf exampleCodec)
       (NewScanner \<lparr>pending = ''a'' @ [newline] @ [newline] @ ''b'', failure = None\<rparr>, 0)
       = Some ScanFalse
   \<and> map_option (\<lambda>(res, d'). (res, currentBytes (tracker d'), currentItems (tracker d')))
       (DecodeLogs 5 exampleCodec 7
          \<lparr>scanner = NewScanner \<lparr>pending = ''a'' @ [newline] @ [newline] @ ''b'', failure = None\<rparr>,
           tracker = NewBatchHelper [WithFlushBytes 0, WithFlushItems 0], offsetTracker = 0\<rparr>)
       = Some (Return ([[[\<lparr>observedTimestamp = 7, body = ''a''\<rparr>]],
                        [[\<lparr>observedTimestamp = 7, body = []\<rparr>]],
                        [[\<lparr>observedTimestamp = 7, body = ''b''\<rparr>]]], None), 2, 3)"
proof -
  let ?sc = "NewScanner \<lparr>pending = ''a'' @ [newline] @ [newline] @ ''b'', failure = None\<rparr>"
  let ?d1 = "\<lparr>scanner = ?sc, tracker = NewBatchHelper [WithFlushItems 2], offsetTracker = 0\<rparr>"
  let ?d2 = "\<lparr>scanner = ?sc, tracker = NewBatchHelper [WithFlushBytes 0, WithFlushItems 0],
              offsetTracker = 0\<rparr>"
  have toks: "scanTokens 5 (splitOf exampleCodec) (?sc, 0) = [''a'', [], ''b'']"
    by (simp add: evalDecoder scanTokens_numeral cong: prod.case_cong_weak let_weak_cong)
  have ends: "scanEnd 5 (splitOf exampleCodec) (?sc, 0) = Some ScanFalse"
    by (simp add: evalDecoder scanEnd_numeral cong: prod.case_cong_weak let_weak_cong)
  have tr: "transformed exampleCodec ''a''" "transformed exampleCodec []"
      "transformed exampleCodec ''b''"
    by (simp_all add: transformed_def exampleCodec_def)
  have o1: "options (tracker ?d1) = \<lparr>FlushBytes = 1048576, FlushItems = 2, Offset = 0\<rparr>"
      "currentBytes (tracker ?d1) = 0" "currentItems (tracker ?d1) = 0"
    by (simp_all add: NewBatchHelper_def NewDecoderOptions_def defaultFlushBytes_def
          WithFlushItems_def)
  have o2: "options (tracker ?d2) = \<lparr>FlushBytes = 0, FlushItems = 0, Offset = 0\<rparr>"
      "currentBytes (tracker ?d2) = 0" "currentItems (tracker ?d2) = 0"
    by (simp_all add: NewBatchHelper_def NewDecoderOptions_def WithFlushBytes_def
          WithFlushItems_def)
  have b1: "batchOf exampleCodec \<lparr>FlushBytes = 1048576, FlushItems = 2, Offset = 0\<rparr> 0 0
       [''a'', [], ''b''] = ([''a'', []], (0, 0), True)"
    using tr by (simp add: thresholdMet_def word_sless_alt word_sle_eq)
  have b2: "batchOf exampleCodec \<lparr>FlushBytes = 0, FlushItems = 0, Offset = 0\<rparr> 0 0
       [''a'', [], ''b''] = ([''a'', [], ''b''], (2, 3), False)"
    using tr by (simp add: thresholdMet_def word_sless_alt word_sle_eq)
  have h1: "batchOf exampleCodec (options (tracker ?d1)) (currentBytes (tracker ?d1))
              (currentItems (tracker ?d1))
              (scanTokens 5 (splitOf exampleCodec) (scanner ?d1, offsetTracker ?d1))
            = ([''a'', []], (0, 0), True)"
    using b1 toks o1 by simp
  have h2: "batchOf exampleCodec (options (tracker ?d2)) (currentBytes (tracker ?d2))
              (currentItems (tracker ?d2))
              (scanTokens 5 (splitOf exampleCodec) (scanner ?d2, offsetTracker ?d2))
            = ([''a'', [], ''b''], (2, 3), False)"
    using b2 toks o2 by simp
  have r1: "map_option fst (DecodeLogs 5 exampleCodec 7 ?d1)
       = Some (Return ([[[\<lparr>observedTimestamp = 7, body = ''a''\<rparr>]],
                        [[\<lparr>observedTimestamp = 7, body = []\<rparr>]]], None))"
    by (simp add: evalDecoder decodeLoop_numeral cong: prod.case_cong_weak let_weak_cong)
  have r2: "map_option (\<lambda>(res, d'). (res, currentBytes (tracker d'), currentItems (tracker d')))
       (DecodeLogs 5 exampleCodec 7 ?d2)
       = Some (Return ([[[\<lparr>observedTimestamp = 7, body = ''a''\<rparr>]],
                        [[\<lparr>observedTimestamp = 7, body = []\<rparr>]],
                        [[\<lparr>observedTimestamp = 7, body = ''b''\<rparr>]]], None), 2, 3)"
    by (simp add: evalDecoder decodeLoop_numeral cong: prod.case_cong_weak let_weak_cong)
  from decode_appends_every_token [OF h1, of 7] decode_appends_every_token [OF h2, of 7]
       b1 b2 tr ends r1 r2
  show ?thesis by (simp del: batchOf.simps)
qed

section \<open>UnmarshalLogs and the item threshold\<close>

lemma repeatedLines_Suc: "repeatedLines (Suc n) = CHR ''a'' # newline # repeatedLines n"
  by (simp add: repeatedLines_def)

lemma repeatedLines_0: "repeatedLines 0 = []"
  by (simp add: repeatedLines_def)

lemma repeatedLines_add: "repeatedLines (m + n) = repeatedLines m @ repeatedLines n"
  by (simp add: repeatedLines_def replicate_add)

lemma length_repeatedLines: "length (repeatedLines n) = 2 * n"
  by (induction n) (simp_all add: repeatedLines_def)

lemma Scan_line:
  assumes "scanErr s = None" and "scanBuf s = CHR ''a'' # newline # rest"
  shows "Scan (splitOf exampleCodec) (s, off) =
           (ScanTrue,
            s\<lparr>scanStart := scanStart s + 2, scanBuf := rest, scanToken := Some ''a'',
              scanEmpties := 0\<rparr>,
            off + 2)"
  using assms
  by (simp add: Scan.simps [of _ "(s, off)"] scanStep_def trySplit_def splitOf_def
        exampleCodec_def splitPattern_def findByte_def newline_def)

lemma Scan_first_read:
  assumes "buf \<noteq> []" and "length buf \<le> 4096"
  shows "Scan split (NewScanner \<lparr>pending = buf, failure = None\<rparr>, off) =
         Scan split
           (\<lparr>scanSrc = \<lparr>pending = [], failure = None\<rparr>, scanBuf = buf, scanStart = 0,
             scanCap = 4096, scanErr = None, scanEmpties = 0, scanToken = None\<rparr>, off)"
proof -
  have "scanStep split (NewScanner \<lparr>pending = buf, failure = None\<rparr>, off) =
          Inr (\<lparr>scanSrc = \<lparr>pending = [], failure = None\<rparr>, scanBuf = buf, scanStart = 0,
                scanCap = 4096, scanErr = None, scanEmpties = 0, scanToken = None\<rparr>, off)"
    using assms
    by (simp add: scanStep_def trySplit_def makeRoom_def readMore_def Read_def NewScanner_def
          maxTokenSize_def startBufSize_def Let_def)
  then show ?thesis
    by (subst Scan.simps) simp
qed

lemma decodeLoop_same_Scan:
  "Scan (splitOf r) (scanner d, offsetTracker d) = Scan (splitOf r) (s2, offsetTracker d) \<Longrightarrow>
     decodeLoop (Suc fuel) r now p d = decodeLoop (Suc fuel) r now p (d\<lparr>scanner := s2\<rparr>)"
  by simp

lemma flush_at_1000:
  assumes "FlushBytes (options bh) = 0" and "FlushItems (options bh) = 1000"
    and "currentItems bh = of_nat j" and "j < 1000"
  shows "ShouldFlush (IncrementBytes (IncrementItems bh 1) n) \<longleftrightarrow> j = 999"
proof -
  have "currentItems bh + 1 = (of_nat (Suc j) :: 64 word)" using assms(3) by simp
  moreover have "sint (of_nat (Suc j) :: 64 word) = int (Suc j)"
    using assms(4) by (intro sint_of_nat_small) simp
  ultimately have "sint (currentItems bh + 1) = int (Suc j)" by (simp only:)
  then show ?thesis
    using assms(1,2,4)
    by (auto simp: ShouldFlush_def IncrementBytes_def IncrementItems_def word_sless_alt
          word_sle_eq)
qed

lemma decode_until_flush:
  assumes "scanErr s = None" and "scanBuf s = repeatedLines k @ rest" and "0 < k"
    and "FlushBytes (options bh) = 0" and "FlushItems (options bh) = 1000"
    and "currentItems bh = of_nat j" and "j + k = 1000"
  shows "\<exists>d'. decodeLoop (k + extra) exampleCodec now p
                 \<lparr>scanner = s, tracker = bh, offsetTracker = off\<rparr>
             = Some (Return (p @ replicate k [[\<lparr>observedTimestamp = now, body = ''a''\<rparr>]], None), d')"
  using assms
proof (induction k arbitrary: s bh off p j)
  case 0
  then show ?case by simp
next
  case (Suc k)
  let ?s' = "s\<lparr>scanStart := scanStart s + 2, scanBuf := repeatedLines k @ rest,
               scanToken := Some ''a'', scanEmpties := 0\<rparr>"
  let ?bh2 = "IncrementBytes (IncrementItems bh 1) (of_nat (length ''a''))"
  have sc: "Scan (splitOf exampleCodec) (s, off) = (ScanTrue, ?s', off + 2)"
    using Scan_line [OF Suc.prems(1), of "repeatedLines k @ rest" off] Suc.prems(2)
    by (simp add: repeatedLines_Suc)
  have j: "j < 1000" using Suc.prems(7) by simp
  have fl: "ShouldFlush ?bh2 \<longleftrightarrow> j = 999"
    using flush_at_1000 [OF Suc.prems(4,5,6) j] .
  show ?case
  proof (cases "k = 0")
    case True
    then have "j = 999" using Suc.prems(7) by simp
    with fl sc True show ?thesis
      by (simp add: exampleCodec_def Bytes_def string_of_def appendRecord_def Let_def)
  next
    case False
    then have nf: "\<not> ShouldFlush ?bh2" using fl Suc.prems(7) by simp
    have step: "decodeLoop (Suc k + extra) exampleCodec now p
                  \<lparr>scanner = s, tracker = bh, offsetTracker = off\<rparr>
                = decodeLoop (k + extra) exampleCodec now
                    (p @ [[[\<lparr>observedTimestamp = now, body = ''a''\<rparr>]]])
                    \<lparr>scanner = ?s', tracker = ?bh2, offsetTracker = off + 2\<rparr>"
      using sc nf
      by (simp add: exampleCodec_def Bytes_def string_of_def appendRecord_def Let_def)
    have "\<exists>d'. decodeLoop (k + extra) exampleCodec now
                    (p @ [[[\<lparr>observedTimestamp = now, body = ''a''\<rparr>]]])
                    \<lparr>scanner = ?s', tracker = ?bh2, offsetTracker = off + 2\<rparr>
             = Some (Return ((p @ [[[\<lparr>observedTimestamp = now, body = ''a''\<rparr>]]])
                  @ replicate k [[\<lparr>observedTimestamp = now, body = ''a''\<rparr>]], None), d')"
    proof (rule Suc.IH)
      show "scanErr ?s' = None" using Suc.prems(1) by simp
      show "scanBuf ?s' = repeatedLines k @ rest" by simp
      show "0 < k" using False by simp
      show "FlushBytes (options ?bh2) = 0" using Suc.prems(4)
        by (simp add: IncrementBytes_def IncrementItems_def)
      show "FlushItems (options ?bh2) = 1000" using Suc.prems(5)
        by (simp add: IncrementBytes_def IncrementItems_def)
      show "currentItems ?bh2 = of_nat (Suc j)" using Suc.prems(6)
        by (simp add: IncrementBytes_def IncrementItems_def)
      show "Suc j + k = 1000" using Suc.prems(7) by simp
    qed
    then show ?thesis
      unfolding step by simp
  qed
qed

text \<open>
  Claim C2. \<open>UnmarshalLogs\<close> sets the byte threshold to 0 and leaves the item
  threshold at its default of 1000: on a payload of 1001 lines its one decode call
  returns after 1000 records, and the last line is lost.
\<close>

theorem UnmarshalLogs_stops_at_1000_records:
  "UnmarshalLogs (1000 + extra) exampleCodec now (repeatedLines 1001)
     = Some (Return (replicate 1000 [[\<lparr>observedTimestamp = now, body = ''a''\<rparr>]], None))
   \<and> FlushItems (NewDecoderOptions [WithOffset 0, WithFlushBytes 0]) = 1000"
proof -
  let ?buf = "repeatedLines 1001"
  let ?bh = "NewBatchHelper [WithOffset 0, WithFlushBytes 0]"
  let ?loaded = "\<lparr>scanSrc = \<lparr>pending = [], failure = None\<rparr>, scanBuf = ?buf, scanStart = 0,
             scanCap = 4096, scanErr = None, scanEmpties = 0, scanToken = None\<rparr>"
  let ?d0 = "\<lparr>scanner = NewScanner \<lparr>pending = ?buf, failure = None\<rparr>, tracker = ?bh,
              offsetTracker = 0\<rparr>"
  have opts: "options ?bh = \<lparr>FlushBytes = 0, FlushItems = 1000, Offset = 0\<rparr>"
    by (simp add: NewBatchHelper_def NewDecoderOptions_def WithOffset_def WithFlushBytes_def
          defaultFlushItems_def)
  have new: "NewLogsDecoder exampleCodec \<lparr>pending = ?buf, failure = None\<rparr>
               [WithOffset 0, WithFlushBytes 0] = Inr ?d0"
    using opts by (simp add: NewLogsDecoder_def Options_def Let_def word_sless_alt)
  have ne: "?buf \<noteq> []" by (simp add: repeatedLines_def)
  have len: "length ?buf \<le> 4096" by (simp add: length_repeatedLines)
  have first: "Scan (splitOf exampleCodec) (scanner ?d0, offsetTracker ?d0)
                 = Scan (splitOf exampleCodec) (?loaded, offsetTracker ?d0)"
    using Scan_first_read [OF ne len, of "splitOf exampleCodec" 0] by simp
  have fuel: "1000 + extra = Suc (999 + extra)" by simp
  have "decodeLoop (1000 + extra) exampleCodec now [] ?d0
          = decodeLoop (1000 + extra) exampleCodec now [] (?d0\<lparr>scanner := ?loaded\<rparr>)"
    unfolding fuel by (rule decodeLoop_same_Scan [OF first])
  moreover have "\<exists>d'. decodeLoop (1000 + extra) exampleCodec now []
                   \<lparr>scanner = ?loaded, tracker = ?bh, offsetTracker = 0\<rparr>
             = Some (Return ([] @ replicate 1000 [[\<lparr>observedTimestamp = now, body = ''a''\<rparr>]], None), d')"
  proof (rule decode_until_flush [where j = 0 and rest = "CHR ''a'' # [newline]"])
    show "scanErr ?loaded = None" by simp
    show "scanBuf ?loaded = repeatedLines 1000 @ CHR ''a'' # [newline]"
      using repeatedLines_add [of 1000 "Suc 0"] by (simp add: repeatedLines_Suc repeatedLines_0)
    show "(0::nat) < 1000" by simp
    show "FlushBytes (options ?bh) = 0" using opts by simp
    show "FlushItems (options ?bh) = 1000" using opts by simp
    show "currentItems ?bh = of_nat 0" by (simp add: NewBatchHelper_def)
    show "(0::nat) + 1000 = 1000" by simp
  qed
  ultimately obtain d' where
    "decodeLoop (1000 + extra) exampleCodec now [] ?d0
       = Some (Return (replicate 1000 [[\<lparr>observedTimestamp = now, body = ''a''\<rparr>]], None), d')"
    by auto
  with new opts show ?thesis
    by (simp add: UnmarshalLogs_def DecodeLogs_def NewBatchHelper_def)
qed

end
